theory Spec2Isabelle
  imports Complex_Main "HOL-Library.Sublist" "HOL-Library.AList"
begin

section \<open>Python values\<close>

text \<open>
  A Python \<open>str\<close> is a sequence of Unicode code points, so text is a list of code point
  numbers (not of bytes). \<open>ascii\<close> only serves to write literals.
\<close>

type_synonym codepoint = nat
type_synonym ustring = "codepoint list"

definition ascii :: "string \<Rightarrow> ustring" where
  "ascii s = map of_char s"

text \<open>
  A Python \<open>float\<close>, by the number it denotes. Comparisons of doubles that are not NaN are
  the comparisons of these numbers; rounding happens only in the conversions, which
  belong to the library (see \<open>pylib\<close>).
\<close>

datatype pyfloat = Finite rat | PosInf | NegInf | NaN

fun float_eq :: "pyfloat \<Rightarrow> pyfloat \<Rightarrow> bool" where
  "float_eq (Finite a) (Finite b) = (a = b)"
| "float_eq PosInf PosInf = True"
| "float_eq NegInf NegInf = True"
| "float_eq _ _ = False"

fun float_less :: "pyfloat \<Rightarrow> pyfloat \<Rightarrow> bool" where
  "float_less NaN _ = False"
| "float_less _ NaN = False"
| "float_less (Finite a) (Finite b) = (a < b)"
| "float_less NegInf NegInf = False"
| "float_less NegInf _ = True"
| "float_less _ NegInf = False"
| "float_less PosInf _ = False"
| "float_less _ PosInf = True"

text \<open>A naive \<open>datetime\<close>; Python orders them field by field.\<close>

datatype datetime = DateTime (dt_year: nat) (dt_month: nat) (dt_day: nat)
  (dt_hour: nat) (dt_minute: nat) (dt_second: nat) (dt_microsecond: nat)

fun lex_less :: "nat list \<Rightarrow> nat list \<Rightarrow> bool" where
  "lex_less (x # xs) (y # ys) = (x < y \<or> (x = y \<and> lex_less xs ys))"
| "lex_less _ _ = False"

definition dt_fields :: "datetime \<Rightarrow> nat list" where
  "dt_fields d = [dt_year d, dt_month d, dt_day d, dt_hour d, dt_minute d, dt_second d,
     dt_microsecond d]"

definition datetime_less :: "datetime \<Rightarrow> datetime \<Rightarrow> bool" where
  "datetime_less a b = lex_less (dt_fields a) (dt_fields b)"

text \<open>
  The scalar values that flow through a cell of a row and through a raw rule value:
  \<open>None\<close> (with \<open>NaT\<close> and \<open>pd.NA\<close>), \<open>str\<close>, \<open>bool\<close>, \<open>int\<close>, \<open>float\<close> and
  \<open>datetime\<close> (of which \<open>pd.Timestamp\<close> is a subclass). Cells are scalars: lists
  and time-zone aware timestamps are outside this model.
\<close>

datatype pyval = PNone | PStr ustring | PBool bool | PInt int | PFloat pyfloat | PDate datetime

text \<open>The exceptions that the modelled code lets escape or answers.\<close>

datatype error = KeyError | ValueError | OverflowError

section \<open>The library the program calls\<close>

text \<open>
  The program works through \<open>str\<close> methods, the \<open>re\<close> character classes, \<open>unicodedata\<close>,
  \<open>float\<close> and \<open>datetime.strptime\<close>. They are code of the Python distribution, driven by
  the tables of the Unicode Character Database. The model takes them as a parameter;
  every function below that calls one of them receives the library as its first
  argument.
\<close>

record pylib =
  isspace :: "codepoint \<Rightarrow> bool"
    \<comment> \<open>\<open>str.isspace\<close>: the class behind \<open>str.strip()\<close>, \<open>str.split()\<close> and \<open>\s\<close>\<close>
  isdecimal :: "codepoint \<Rightarrow> bool"
    \<comment> \<open>the class \<open>\d\<close> of a \<open>str\<close> pattern\<close>
  lower :: "ustring \<Rightarrow> ustring"
    \<comment> \<open>\<open>str.lower()\<close>\<close>
  nfd :: "ustring \<Rightarrow> ustring"
    \<comment> \<open>\<open>unicodedata.normalize('NFD', s)\<close>\<close>
  combining :: "codepoint \<Rightarrow> nat"
    \<comment> \<open>\<open>unicodedata.combining(c)\<close>, the canonical combining class\<close>
  float_of_str :: "ustring \<Rightarrow> pyfloat option"
    \<comment> \<open>\<open>float(s)\<close> of a \<open>str\<close>; \<open>None\<close> is \<open>ValueError\<close>\<close>
  float_of_int :: "int \<Rightarrow> pyfloat"
    \<comment> \<open>\<open>float(i)\<close> of an \<open>int\<close>, rounded to the nearest double\<close>
  int_overflows :: "int \<Rightarrow> bool"
    \<comment> \<open>\<open>float(i)\<close> raises \<open>OverflowError\<close>: the \<open>int\<close> is beyond the doubles\<close>
  repr_float :: "pyfloat \<Rightarrow> ustring"
    \<comment> \<open>\<open>str(x)\<close> of a \<open>float\<close>\<close>
  str_datetime :: "datetime \<Rightarrow> ustring"
    \<comment> \<open>\<open>str(d)\<close> of a \<open>datetime\<close>\<close>
  strptime_ymd :: "ustring \<Rightarrow> datetime option"
    \<comment> \<open>\<open>datetime.strptime(s, '%Y-%m-%d')\<close>; \<open>None\<close> is \<open>ValueError\<close>\<close>

subsection \<open>Truth value, missing values, \<open>str()\<close> and \<open>float()\<close>\<close>

fun truthy :: "pyval \<Rightarrow> bool" where
  "truthy PNone = False"
| "truthy (PStr s) = (s \<noteq> [])"
| "truthy (PBool b) = b"
| "truthy (PInt i) = (i \<noteq> 0)"
| "truthy (PFloat f) = (\<not> float_eq f (Finite 0))"
| "truthy (PDate d) = True"

text \<open>\<open>pd.isna\<close> of a scalar.\<close>

fun isna :: "pyval \<Rightarrow> bool" where
  "isna PNone = True"
| "isna (PFloat NaN) = True"
| "isna _ = False"

function digits :: "nat \<Rightarrow> ustring" where
  "digits n = (if n < 10 then [48 + n] else digits (n div 10) @ [48 + n mod 10])"
  by pat_completeness auto
termination
  by (relation "measure id") auto

declare digits.simps [simp del]

definition str_int :: "int \<Rightarrow> ustring" where
  "str_int i = (if i < 0 then 45 # digits (nat (- i)) else digits (nat i))"

fun py_str :: "pylib \<Rightarrow> pyval \<Rightarrow> ustring" where
  "py_str L PNone = ascii ''None''"
| "py_str L (PStr s) = s"
| "py_str L (PBool b) = (if b then ascii ''True'' else ascii ''False'')"
| "py_str L (PInt i) = str_int i"
| "py_str L (PFloat f) = repr_float L f"
| "py_str L (PDate d) = str_datetime L d"

text \<open>
  \<open>float(v)\<close>. It raises \<open>OverflowError\<close> on an \<open>int\<close> beyond the doubles
  (\<open>float_overflows\<close>); otherwise \<open>py_float\<close> is its value, \<open>None\<close> being the \<open>ValueError\<close>
  or \<open>TypeError\<close> it raises.
\<close>

fun float_overflows :: "pylib \<Rightarrow> pyval \<Rightarrow> bool" where
  "float_overflows L (PInt i) = int_overflows L i"
| "float_overflows L _ = False"

fun py_float :: "pylib \<Rightarrow> pyval \<Rightarrow> pyfloat option" where
  "py_float L PNone = None"
| "py_float L (PStr s) = float_of_str L s"
| "py_float L (PBool b) = Some (Finite (if b then 1 else 0))"
| "py_float L (PInt i) = Some (float_of_int L i)"
| "py_float L (PFloat f) = Some f"
| "py_float L (PDate d) = None"

subsection \<open>String operations\<close>

text \<open>\<open>s.strip()\<close>\<close>

definition strip :: "pylib \<Rightarrow> ustring \<Rightarrow> ustring" where
  "strip L s = rev (dropWhile (isspace L) (rev (dropWhile (isspace L) s)))"

text \<open>
  \<open>s.split()\<close>: the maximal runs of characters that are not whitespace. \<open>cur\<close> is the
  word being read.
\<close>

fun split_from :: "pylib \<Rightarrow> ustring \<Rightarrow> ustring \<Rightarrow> ustring list" where
  "split_from L cur [] = (if cur = [] then [] else [cur])"
| "split_from L cur (c # cs) =
     (if isspace L c then (if cur = [] then split_from L [] cs else cur # split_from L [] cs)
      else split_from L (cur @ [c]) cs)"

definition split :: "pylib \<Rightarrow> ustring \<Rightarrow> ustring list" where
  "split L s = split_from L [] s"

text \<open>\<open>re.sub(r'\s+', ' ', s)\<close>: every maximal run of whitespace becomes one space.\<close>

function collapse_spaces :: "pylib \<Rightarrow> ustring \<Rightarrow> ustring" where
  "collapse_spaces L [] = []"
| "collapse_spaces L (c # cs) =
     (if isspace L c then 32 # collapse_spaces L (dropWhile (isspace L) cs)
      else c # collapse_spaces L cs)"
  by pat_completeness auto
termination
  by (relation "measure (\<lambda>(L, s). length s)") (auto simp: less_Suc_eq_le length_dropWhile_le)

text \<open>
  The character class \<open>[.,!?;:()\[\]{}"'-]\<close> of the two cleaning functions, and
  \<open>re.sub\<close> of it by the empty string.
\<close>

definition symbols :: "codepoint list" where
  "symbols = [0x2E, 0x2C, 0x21, 0x3F, 0x3B, 0x3A, 0x28, 0x29, 0x5B, 0x5D, 0x7B, 0x7D,
     0x22, 0x27, 0x2D]"

definition remove_symbols :: "ustring \<Rightarrow> ustring" where
  "remove_symbols s = filter (\<lambda>c. c \<notin> set symbols) s"

section \<open>Analyzer: text normalisation\<close>

text \<open>
  \<open>Analyzer._normalize_text_for_comparison\<close>. The argument is declared \<open>str\<close>, and
  \<open>_check_string_condition\<close> passes the cell as it is, of any type.
\<close>

definition normalize_text_for_comparison :: "pylib \<Rightarrow> pyval \<Rightarrow> ustring" where
  "normalize_text_for_comparison L text =
     (if \<not> truthy text then []
      else let text_str = py_str L text;
               text_str = strip L text_str;
               normalized = nfd L text_str;
               cleaned = filter (\<lambda>char. combining L char = 0) normalized;
               cleaned = remove_symbols cleaned
           in lower L cleaned)"

text \<open>\<open>Analyzer._clean_pattern_text\<close>\<close>

definition clean_pattern_text :: "pylib \<Rightarrow> pyval \<Rightarrow> ustring" where
  "clean_pattern_text L text =
     (if \<not> truthy text then []
      else let text_str = py_str L text;
               text_str = strip L text_str
           in remove_symbols text_str)"

text \<open>
  \<open>Analyzer._normalize_column_name\<close>. The loop over \<open>column_mappings\<close> replaces the name
  by the entry whose key it equals, and a dictionary has at most one such entry.
\<close>

definition column_mappings :: "(ustring \<times> ustring) list" where
  "column_mappings =
     [(ascii ''tweet id'', ascii ''tweet_id''),
      (ascii ''tweet_id'', ascii ''tweet_id''),
      (ascii ''usuario nombre'', ascii ''usuario_nombre''),
      (ascii ''usuario genero'', ascii ''usuario_genero''),
      (ascii ''tipo de verificacion'', ascii ''tipo_de_verificacion''),
      (ascii ''public metrics dump'', ascii ''public_metrics_dump''),
      (ascii ''user dump'', ascii ''user_dump''),
      (ascii ''tweet dump'', ascii ''tweet_dump''),
      (ascii ''source file'', ascii ''_source_file''),
      (ascii ''source path'', ascii ''_source_path''),
      (ascii ''sheet name'', ascii ''_sheet_name''),
      (ascii ''language'', ascii ''_language'')]"

fun standardize :: "(ustring \<times> ustring) list \<Rightarrow> ustring \<Rightarrow> ustring" where
  "standardize [] normalized = normalized"
| "standardize ((original, standard) # rest) normalized =
     (if normalized = original then standard else standardize rest normalized)"

definition normalize_column_name :: "pylib \<Rightarrow> ustring \<Rightarrow> ustring" where
  "normalize_column_name L column_name =
     (if column_name = [] then []
      else let col_str = column_name;
               normalized = lower L col_str;
               normalized = strip L (collapse_spaces L normalized)
           in standardize column_mappings normalized)"

section \<open>Analyzer: rule compilation\<close>

text \<open>
  \<open>re.match\<close> of a pattern that is a sequence of one-character classes: the classes
  must accept the first characters of the text, one each. This covers
  \<open>^[<>=]\d{4}-\d{2}-\d{2}\<close>, and \<open>^[<>=]\d+\<close> too, which matches as soon as one
  digit follows the operator.
\<close>

fun match_classes :: "(codepoint \<Rightarrow> bool) list \<Rightarrow> ustring \<Rightarrow> bool" where
  "match_classes [] s = True"
| "match_classes (p # ps) [] = False"
| "match_classes (p # ps) (c # cs) = (p c \<and> match_classes ps cs)"

definition is_operator :: "codepoint \<Rightarrow> bool" where
  "is_operator c = (c = 0x3C \<or> c = 0x3E \<or> c = 0x3D)"

definition is_hyphen :: "codepoint \<Rightarrow> bool" where
  "is_hyphen c = (c = 0x2D)"

text \<open>\<open>Analyzer._is_numeric_field\<close>, \<open>_is_date_field\<close> and \<open>_is_boolean_field\<close>\<close>

definition is_numeric_field :: "pylib \<Rightarrow> ustring \<Rightarrow> bool" where
  "is_numeric_field L v = match_classes [is_operator, isdecimal L] v"

definition is_date_field :: "pylib \<Rightarrow> ustring \<Rightarrow> bool" where
  "is_date_field L v =
     match_classes [is_operator, isdecimal L, isdecimal L, isdecimal L, isdecimal L, is_hyphen,
       isdecimal L, isdecimal L, is_hyphen, isdecimal L, isdecimal L] v"

fun is_bool :: "pyval \<Rightarrow> bool" where
  "is_bool (PBool b) = True"
| "is_bool _ = False"

definition is_boolean_field :: "pyval list \<Rightarrow> bool" where
  "is_boolean_field vs = (if vs = [] then False else list_all is_bool vs)"

text \<open>
  \<open>re.match(r'^([<>=])(.+)$', s)\<close> and its two groups. \<open>.\<close> stops at a line feed and
  \<open>$\<close> also matches before a line feed that ends the text.
\<close>

definition match_operator :: "ustring \<Rightarrow> (codepoint \<times> ustring) option" where
  "match_operator s =
     (case s of
        [] \<Rightarrow> None
      | c # rest \<Rightarrow>
          (let body = takeWhile (\<lambda>x. x \<noteq> 10) rest;
               tail = dropWhile (\<lambda>x. x \<noteq> 10) rest
           in if is_operator c \<and> body \<noteq> [] \<and> (tail = [] \<or> tail = [10])
              then Some (c, body) else None))"

record 'v condition =
  operator :: codepoint
  cond_value :: 'v
  original :: pyval

text \<open>
  \<open>Analyzer._process_numeric_values\<close>: a value that does not parse is dropped (the
  warning is not modelled). The values of a rule are taken to be within the doubles: on
  an \<open>int\<close> beyond them \<open>float\<close> would raise \<open>OverflowError\<close> here.
\<close>

fun process_numeric_values :: "pylib \<Rightarrow> pyval list \<Rightarrow> pyfloat condition list" where
  "process_numeric_values L [] = []"
| "process_numeric_values L (v # vs) =
     (case match_operator (py_str L v) of
        Some (opr, num_str) \<Rightarrow>
          (case float_of_str L num_str of
             Some num_value \<Rightarrow>
               \<lparr>operator = opr, cond_value = num_value, original = v\<rparr>
                 # process_numeric_values L vs
           | None \<Rightarrow> process_numeric_values L vs)
      | None \<Rightarrow>
          (case py_float L v of
             Some num_value \<Rightarrow>
               \<lparr>operator = 0x3D, cond_value = num_value, original = v\<rparr>
                 # process_numeric_values L vs
           | None \<Rightarrow> process_numeric_values L vs))"

text \<open>
  \<open>Analyzer._process_date_values\<close>. Without an operator the value itself goes to
  \<open>strptime\<close>, which raises \<open>TypeError\<close> unless it is a \<open>str\<close>.
\<close>

fun strptime_value :: "pylib \<Rightarrow> pyval \<Rightarrow> datetime option" where
  "strptime_value L (PStr s) = strptime_ymd L s"
| "strptime_value L _ = None"

fun process_date_values :: "pylib \<Rightarrow> pyval list \<Rightarrow> datetime condition list" where
  "process_date_values L [] = []"
| "process_date_values L (v # vs) =
     (case match_operator (py_str L v) of
        Some (opr, date_str) \<Rightarrow>
          (case strptime_ymd L date_str of
             Some date_value \<Rightarrow>
               \<lparr>operator = opr, cond_value = date_value, original = v\<rparr>
                 # process_date_values L vs
           | None \<Rightarrow> process_date_values L vs)
      | None \<Rightarrow>
          (case strptime_value L v of
             Some date_value \<Rightarrow>
               \<lparr>operator = 0x3D, cond_value = date_value, original = v\<rparr>
                 # process_date_values L vs
           | None \<Rightarrow> process_date_values L vs))"

text \<open>
  A compiled rule. Python dictionaries keep insertion order and \<open>d[k] = v\<close> replaces the
  value of a key that is present: an association list with \<open>AList.update\<close>.
\<close>

type_synonym raw_pattern = "(ustring \<times> pyval list) list"

record processed_pattern =
  string_fields :: "(ustring \<times> ustring list) list"
  numeric_fields :: "(ustring \<times> pyfloat condition list) list"
  date_fields :: "(ustring \<times> datetime condition list) list"
  boolean_fields :: "(ustring \<times> pyval list) list"
  original_pattern :: raw_pattern

type_synonym row = "(ustring \<times> pyval) list"

record analyzer =
  processed_patterns :: "(ustring \<times> processed_pattern) list"
  results :: "(ustring \<times> (ustring \<times> row list) list) list"
  column_mapping :: "(ustring \<times> ustring list) list"

text \<open>
  \<open>Analyzer._process_patterns\<close>: the loop over the columns of one pattern, then the loop
  over the patterns.
\<close>

fun process_columns :: "pylib \<Rightarrow> raw_pattern \<Rightarrow> processed_pattern \<Rightarrow> processed_pattern" where
  "process_columns L [] processed = processed"
| "process_columns L ((column_name, vs) # rest) processed =
     (case vs of
        [] \<Rightarrow> process_columns L rest processed
      | v0 # _ \<Rightarrow>
          (let normalized_column_name = normalize_column_name L column_name;
               first_value = py_str L v0
           in process_columns L rest
                (if is_date_field L first_value then
                   processed\<lparr>date_fields :=
                     AList.update normalized_column_name (process_date_values L vs)
                       (date_fields processed)\<rparr>
                 else if is_numeric_field L first_value then
                   processed\<lparr>numeric_fields :=
                     AList.update normalized_column_name (process_numeric_values L vs)
                       (numeric_fields processed)\<rparr>
                 else if is_boolean_field vs then
                   processed\<lparr>boolean_fields :=
                     AList.update normalized_column_name vs (boolean_fields processed)\<rparr>
                 else
                   processed\<lparr>string_fields :=
                     AList.update normalized_column_name (map (clean_pattern_text L) vs)
                       (string_fields processed)\<rparr>)))"

definition empty_pattern :: "raw_pattern \<Rightarrow> processed_pattern" where
  "empty_pattern pattern_data =
     \<lparr>string_fields = [], numeric_fields = [], date_fields = [], boolean_fields = [],
      original_pattern = pattern_data\<rparr>"

fun process_patterns :: "pylib \<Rightarrow> analyzer \<Rightarrow> (ustring \<times> raw_pattern) list \<Rightarrow> analyzer" where
  "process_patterns L self [] = self"
| "process_patterns L self ((pattern_name, pattern_data) # rest) =
     process_patterns L
       (self\<lparr>processed_patterns :=
          AList.update pattern_name (process_columns L pattern_data (empty_pattern pattern_data))
            (processed_patterns self)\<rparr>)
       rest"

section \<open>Analyzer: condition evaluators\<close>

text \<open>
  \<open>Analyzer._calculate_similarity\<close>. The quotient is exact here; the double that Python
  computes lies on the same side of the double \<open>0.7\<close> as long as the union has fewer
  than \<open>2 ^ 50\<close> words.
\<close>

definition calculate_similarity :: "pylib \<Rightarrow> ustring \<Rightarrow> ustring \<Rightarrow> rat" where
  "calculate_similarity L text1 text2 =
     (if text1 = [] \<or> text2 = [] then 0
      else let words1 = set (split L text1);
               words2 = set (split L text2)
           in if words1 = {} \<or> words2 = {} then 0
              else let intersection = card (words1 \<inter> words2);
                       union = card (words1 \<union> words2)
                   in if union = 0 then 0 else of_nat intersection / of_nat union)"

text \<open>\<open>Analyzer._check_string_condition\<close>: the guard, then the loop over the pattern values.\<close>

fun any_pattern_matches :: "pylib \<Rightarrow> ustring \<Rightarrow> ustring list \<Rightarrow> bool" where
  "any_pattern_matches L row_str [] = False"
| "any_pattern_matches L row_str (pattern_value # rest) =
     (let normalized_pattern = normalize_text_for_comparison L (PStr pattern_value)
      in if sublist normalized_pattern row_str \<or> sublist row_str normalized_pattern
            \<or> calculate_similarity L normalized_pattern row_str > 7 / 10
         then True
         else any_pattern_matches L row_str rest)"

definition check_string_condition :: "pylib \<Rightarrow> pyval \<Rightarrow> ustring list \<Rightarrow> bool" where
  "check_string_condition L row_value pattern_values =
     (if isna row_value then False
      else let row_str = normalize_text_for_comparison L row_value
           in any_pattern_matches L row_str pattern_values)"

text \<open>
  \<open>Analyzer._check_numeric_condition\<close>. Its \<open>except (ValueError, TypeError)\<close> answers
  \<open>False\<close>; an \<open>OverflowError\<close> of \<open>float(row_value)\<close> escapes.
\<close>

fun any_numeric_condition :: "pyfloat \<Rightarrow> pyfloat condition list \<Rightarrow> bool" where
  "any_numeric_condition row_num [] = False"
| "any_numeric_condition row_num (c # rest) =
     (if operator c = 0x3D \<and> float_eq row_num (cond_value c) then True
      else if operator c = 0x3E \<and> float_less (cond_value c) row_num then True
      else if operator c = 0x3C \<and> float_less row_num (cond_value c) then True
      else any_numeric_condition row_num rest)"

definition check_numeric_condition ::
  "pylib \<Rightarrow> pyval \<Rightarrow> pyfloat condition list \<Rightarrow> error + bool"
where
  "check_numeric_condition L row_value pattern_conditions =
     (if isna row_value then Inr False
      else if float_overflows L row_value then Inl OverflowError
      else case py_float L row_value of
             None \<Rightarrow> Inr False
           | Some row_num \<Rightarrow> Inr (any_numeric_condition row_num pattern_conditions))"

text \<open>\<open>Analyzer._check_date_condition\<close>\<close>

fun any_date_condition :: "datetime \<Rightarrow> datetime condition list \<Rightarrow> bool" where
  "any_date_condition row_date [] = False"
| "any_date_condition row_date (c # rest) =
     (if operator c = 0x3D \<and> row_date = cond_value c then True
      else if operator c = 0x3E \<and> datetime_less (cond_value c) row_date then True
      else if operator c = 0x3C \<and> datetime_less row_date (cond_value c) then True
      else any_date_condition row_date rest)"

fun row_date_of :: "pylib \<Rightarrow> pyval \<Rightarrow> datetime option" where
  "row_date_of L (PStr s) = strptime_ymd L s"
| "row_date_of L (PDate d) = Some d"
| "row_date_of L _ = None"

definition check_date_condition :: "pylib \<Rightarrow> pyval \<Rightarrow> datetime condition list \<Rightarrow> bool" where
  "check_date_condition L row_value pattern_conditions =
     (if isna row_value then False
      else case row_date_of L row_value of
             None \<Rightarrow> False
           | Some row_date \<Rightarrow> any_date_condition row_date pattern_conditions)"

text \<open>
  \<open>Analyzer._check_boolean_condition\<close>. \<open>row_bool in pattern_values\<close> compares with \<open>==\<close>,
  under which \<open>True\<close> equals \<open>1\<close> and \<open>1.0\<close>.
\<close>

fun row_bool_of :: "pylib \<Rightarrow> pyval \<Rightarrow> bool option" where
  "row_bool_of L (PBool b) = Some b"
| "row_bool_of L (PStr s) =
     Some (lower L s \<in> set [ascii ''true'', ascii ''1'', ascii ''yes'', ascii ''verdadero''])"
| "row_bool_of L (PInt i) = Some (i \<noteq> 0)"
| "row_bool_of L (PFloat f) = Some (\<not> float_eq f (Finite 0))"
| "row_bool_of L _ = None"

fun bool_equals :: "bool \<Rightarrow> pyval \<Rightarrow> bool" where
  "bool_equals b (PBool c) = (b = c)"
| "bool_equals b (PInt i) = (i = (if b then 1 else 0))"
| "bool_equals b (PFloat f) = float_eq f (Finite (if b then 1 else 0))"
| "bool_equals b _ = False"

definition check_boolean_condition :: "pylib \<Rightarrow> pyval \<Rightarrow> pyval list \<Rightarrow> bool" where
  "check_boolean_condition L row_value pattern_values =
     (if isna row_value then False
      else case row_bool_of L row_value of
             None \<Rightarrow> False
           | Some row_bool \<Rightarrow> list_ex (bool_equals row_bool) pattern_values)"

section \<open>Analyzer: matching a row against a rule\<close>

text \<open>
  \<open>find_column_case_insensitive\<close>, the helper inside \<open>_check_row_matches_pattern\<close>:
  the first label of the row whose normalised name equals that of the rule's column.
\<close>

fun find_column_case_insensitive :: "pylib \<Rightarrow> ustring \<Rightarrow> ustring list \<Rightarrow> ustring option" where
  "find_column_case_insensitive L column_name [] = None"
| "find_column_case_insensitive L column_name (col # row_index) =
     (let normalized_pattern_col = normalize_column_name L column_name;
          normalized_data_col = normalize_column_name L col
      in if normalized_data_col = normalized_pattern_col then Some col
         else find_column_case_insensitive L column_name row_index)"

text \<open>
  \<open>row[actual_column]\<close> of a \<open>pd.Series\<close>: the cells that stand under the label. One cell
  is handed over as a scalar; several cells, under a repeated label, as a \<open>Series\<close>.
\<close>

definition row_cells :: "row \<Rightarrow> ustring \<Rightarrow> pyval list" where
  "row_cells row label = map snd (filter (\<lambda>(l, v). l = label) row)"

text \<open>
  What one of the four loops over a bucket leaves: an exception, an early \<open>return\<close>, or
  the updated \<open>matched_columns\<close> and \<open>total_columns\<close>.
\<close>

datatype outcome = Raise error | Return bool | Continue "ustring set" nat

text \<open>
  The four loops of \<open>_check_row_matches_pattern\<close> differ in the bucket and in the
  evaluator only; \<open>check\<close> is the evaluator, with the exception it lets escape.
  \<open>row[actual_column]\<close> raises \<open>KeyError\<close> for a label the row does not have. Under a
  repeated label it is a \<open>Series\<close>, and the first statement of each of the four
  evaluators, \<open>if pd.isna(row_value)\<close>, raises \<open>ValueError\<close> on a \<open>Series\<close>.
\<close>

fun check_fields ::
  "pylib \<Rightarrow> (pyval \<Rightarrow> 'c \<Rightarrow> error + bool) \<Rightarrow> row \<Rightarrow> (ustring \<times> 'c) list \<Rightarrow> ustring set \<Rightarrow> nat
     \<Rightarrow> outcome"
where
  "check_fields L check row [] matched_columns total_columns =
     Continue matched_columns total_columns"
| "check_fields L check row ((column_name, conds) # rest) matched_columns total_columns =
     (case find_column_case_insensitive L column_name (map fst row) of
        None \<Rightarrow> Return False
      | Some actual_column \<Rightarrow>
          (case row_cells row actual_column of
             [] \<Rightarrow> Raise KeyError
           | [row_value] \<Rightarrow>
               (case check row_value conds of
                  Inl e \<Rightarrow> Raise e
                | Inr holds \<Rightarrow>
                    check_fields L check row rest
                      (if holds then insert column_name matched_columns else matched_columns)
                      (total_columns + 1))
           | _ # _ # _ \<Rightarrow> Raise ValueError))"

text \<open>
  \<open>Analyzer._check_row_matches_pattern\<close>. The string, date and boolean evaluators let no
  exception escape on a scalar cell.
\<close>

definition check_row_matches_pattern :: "pylib \<Rightarrow> analyzer \<Rightarrow> row \<Rightarrow> ustring \<Rightarrow> error + bool" where
  "check_row_matches_pattern L self row pattern_name =
     (case map_of (processed_patterns self) pattern_name of
        None \<Rightarrow> Inr False
      | Some pattern \<Rightarrow>
     (case check_fields L (\<lambda>row_value pattern_values.
                            Inr (check_string_condition L row_value pattern_values))
             row (string_fields pattern) {} 0 of
        Raise e \<Rightarrow> Inl e
      | Return b \<Rightarrow> Inr b
      | Continue matched1 total1 \<Rightarrow>
     (case check_fields L (check_numeric_condition L) row (numeric_fields pattern)
             matched1 total1 of
        Raise e \<Rightarrow> Inl e
      | Return b \<Rightarrow> Inr b
      | Continue matched2 total2 \<Rightarrow>
     (case check_fields L (\<lambda>row_value pattern_conditions.
                            Inr (check_date_condition L row_value pattern_conditions))
             row (date_fields pattern) matched2 total2 of
        Raise e \<Rightarrow> Inl e
      | Return b \<Rightarrow> Inr b
      | Continue matched3 total3 \<Rightarrow>
     (case check_fields L (\<lambda>row_value pattern_values.
                            Inr (check_boolean_condition L row_value pattern_values))
             row (boolean_fields pattern) matched3 total3 of
        Raise e \<Rightarrow> Inl e
      | Return b \<Rightarrow> Inr b
      | Continue matched_columns total_columns \<Rightarrow>
          Inr (card matched_columns = total_columns))))))"

section \<open>Analyzer: applying the rules to the data\<close>

text \<open>
  The loop over the rows of one language: \<open>try\<close> the check, keep the row when it holds,
  \<open>continue\<close> on any exception.
\<close>

fun find_matching_rows :: "pylib \<Rightarrow> analyzer \<Rightarrow> ustring \<Rightarrow> row list \<Rightarrow> row list" where
  "find_matching_rows L self pattern_name [] = []"
| "find_matching_rows L self pattern_name (row # df) =
     (case check_row_matches_pattern L self row pattern_name of
        Inl e \<Rightarrow> find_matching_rows L self pattern_name df
      | Inr b \<Rightarrow>
          (if b then row # find_matching_rows L self pattern_name df
           else find_matching_rows L self pattern_name df))"

text \<open>The loop over the pattern names, for one language.\<close>

fun apply_to_language ::
  "pylib \<Rightarrow> ustring \<Rightarrow> row list \<Rightarrow> ustring list \<Rightarrow> analyzer \<Rightarrow> analyzer"
where
  "apply_to_language L language df [] self = self"
| "apply_to_language L language df (pattern_name # names) self =
     (let matching_rows = find_matching_rows L self pattern_name df
      in apply_to_language L language df names
           (if matching_rows \<noteq> [] then
              self\<lparr>results :=
                AList.map_entry pattern_name (AList.update language matching_rows)
                  (results self)\<rparr>
            else self))"

text \<open>The loop over the languages.\<close>

fun apply_to_data ::
  "pylib \<Rightarrow> (ustring \<times> row list) list \<Rightarrow> ustring list \<Rightarrow> analyzer \<Rightarrow> analyzer"
where
  "apply_to_data L [] names self = self"
| "apply_to_data L ((language, df) # data) names self =
     apply_to_data L data names (apply_to_language L language df names self)"

fun init_results ::
  "ustring list \<Rightarrow> (ustring \<times> (ustring \<times> row list) list) list
     \<Rightarrow> (ustring \<times> (ustring \<times> row list) list) list"
where
  "init_results [] res = res"
| "init_results (pattern_name # names) res =
     init_results names (AList.update pattern_name [] res)"

fun track_columns ::
  "pylib \<Rightarrow> (ustring \<times> raw_pattern) list \<Rightarrow> (ustring \<times> ustring list) list
     \<Rightarrow> (ustring \<times> ustring list) list"
where
  "track_columns L [] mapping = mapping"
| "track_columns L ((pattern_name, pattern_data) # rest) mapping =
     track_columns L rest
       (AList.update pattern_name (map (normalize_column_name L) (map fst pattern_data)) mapping)"

text \<open>\<open>Analyzer.apply_patterns\<close>: the analyzer it leaves and the value it returns.\<close>

definition apply_patterns ::
  "pylib \<Rightarrow> analyzer \<Rightarrow> (ustring \<times> row list) list \<Rightarrow> (ustring \<times> raw_pattern) list
     \<Rightarrow> analyzer \<times> (ustring \<times> (ustring \<times> row list) list) list"
where
  "apply_patterns L self data patterns =
     (let self = process_patterns L self patterns;
          self = self\<lparr>results := init_results (map fst patterns) []\<rparr>;
          self = self\<lparr>column_mapping := track_columns L patterns (column_mapping self)\<rparr>;
          self = apply_to_data L data (map fst patterns) self
      in (self, results self))"

section \<open>Merger: combining and deduplicating\<close>

text \<open>
  A \<open>DataFrame\<close> of the merger: its column labels and its rows. A row gives the cell of
  a column, \<open>None\<close> where the cell is missing (NaN), which is also what \<open>pd.concat\<close>
  fills in for a column that a source frame does not have. The cells are of any type
  \<open>'c\<close>, taken up to the equality by which pandas recognises duplicates.
\<close>

record 'c data_frame =
  columns :: "ustring list"
  rows :: "(ustring \<Rightarrow> 'c option) list"

record 'c data_reader =
  data_frames :: "(ustring \<times> 'c data_frame) list"
  combined_data :: "'c data_frame option"
  duplicate_stats :: "(nat \<times> nat \<times> nat) option"

text \<open>
  \<open>pd.concat(dfs, ignore_index=True, sort=False)\<close>: the rows of the frames one after
  the other, over the union of the columns in the order of their first appearance.
\<close>

fun union_columns :: "ustring list \<Rightarrow> ustring list \<Rightarrow> ustring list" where
  "union_columns seen [] = seen"
| "union_columns seen (c # cs) =
     (if c \<in> set seen then union_columns seen cs else union_columns (seen @ [c]) cs)"

definition concat_frames :: "'c data_frame list \<Rightarrow> 'c data_frame" where
  "concat_frames dfs =
     \<lparr>columns = union_columns [] (concat (map columns dfs)),
      rows = concat (map rows dfs)\<rparr>"

text \<open>\<open>DataReader.combine_data\<close>\<close>

definition combine_data :: "'c data_reader \<Rightarrow> 'c data_reader \<times> bool" where
  "combine_data self =
     (if data_frames self = [] then (self, False)
      else (self\<lparr>combined_data := Some (concat_frames (map snd (data_frames self)))\<rparr>, True))"

text \<open>
  \<open>DataFrame.drop_duplicates(subset, keep='first')\<close>: a row is dropped when an earlier
  row has the same cells in the columns of \<open>subset\<close> (here \<open>subset_cols\<close>); \<open>seen\<close> are
  the keys of the rows read so far. A frame without rows or without columns is
  returned as it is. Otherwise a column of \<open>subset\<close> that the frame does not have
  raises \<open>KeyError\<close>, and an empty \<open>subset\<close> raises \<open>ValueError\<close>.
\<close>

fun keep_first :: "('r \<Rightarrow> 'k) \<Rightarrow> 'k list \<Rightarrow> 'r list \<Rightarrow> 'r list" where
  "keep_first key seen [] = []"
| "keep_first key seen (r # rs) =
     (if key r \<in> set seen then keep_first key seen rs
      else r # keep_first key (key r # seen) rs)"

definition row_key :: "ustring list \<Rightarrow> (ustring \<Rightarrow> 'c option) \<Rightarrow> 'c option list" where
  "row_key subset_cols r = map r subset_cols"

definition drop_duplicates :: "ustring list \<Rightarrow> 'c data_frame \<Rightarrow> error + 'c data_frame" where
  "drop_duplicates subset_cols df =
     (if rows df = [] \<or> columns df = [] then Inr df
      else if \<not> set subset_cols \<subseteq> set (columns df) then Inl KeyError
      else if subset_cols = [] then Inl ValueError
      else Inr (df\<lparr>rows := keep_first (row_key subset_cols) [] (rows df)\<rparr>))"

definition metadata_cols :: "ustring list" where
  "metadata_cols =
     [ascii ''_source_file'', ascii ''_source_path'', ascii ''_language'', ascii ''_sheet_name'']"

text \<open>
  \<open>DataReader.remove_duplicates\<close>. Its \<open>except Exception\<close> answers any exception of
  \<open>drop_duplicates\<close> with \<open>False\<close> and leaves the reader as it was.
\<close>

definition remove_duplicates :: "'c data_reader \<Rightarrow> ustring list option \<Rightarrow> 'c data_reader \<times> bool" where
  "remove_duplicates self subset_arg =
     (case combined_data self of
        None \<Rightarrow> (self, False)
      | Some combined \<Rightarrow>
          (let initial_rows = length (rows combined);
               subset_cols = (case subset_arg of
                                 None \<Rightarrow> filter (\<lambda>col. col \<notin> set metadata_cols) (columns combined)
                               | Some cols \<Rightarrow> cols)
           in case drop_duplicates subset_cols combined of
                Inl e \<Rightarrow> (self, False)
              | Inr deduplicated \<Rightarrow>
                  (let final_rows = length (rows deduplicated);
                       duplicates_removed = initial_rows - final_rows
                   in (self\<lparr>combined_data := Some deduplicated,
                            duplicate_stats :=
                              Some (initial_rows, final_rows, duplicates_removed)\<rparr>, True))))"

section \<open>A sample of the library\<close>

text \<open>
  To run the program on concrete text the library has to be given. \<open>sample_lib\<close> holds
  the part of CPython and of the Unicode Character Database that concerns text of code
  points below U+0100 (Basic Latin and Latin-1 Supplement): the whitespace class (given
  in full), the decimal digits, the lower-case mapping, the canonical decompositions
  (each a base letter and one mark, so that NFD needs no reordering) and the combining
  classes of the marks they produce. Of \<open>float\<close>, \<open>str\<close> of a float and \<open>strptime\<close> it
  keeps the plain forms: \<open>float\<close> of an unsigned run of ASCII digits and of an integer,
  both up to \<open>2 ^ 53\<close> (where the conversion is exact), \<open>str\<close> of the floats that are
  integers below \<open>10 ^ 16\<close> in absolute value, and dates in ASCII digits.
\<close>

definition sample_isspace :: "codepoint \<Rightarrow> bool" where
  "sample_isspace c =
     (c \<in> set [0x09, 0x0A, 0x0B, 0x0C, 0x0D, 0x1C, 0x1D, 0x1E, 0x1F, 0x20, 0x85, 0xA0,
        0x1680, 0x2000, 0x2001, 0x2002, 0x2003, 0x2004, 0x2005, 0x2006, 0x2007, 0x2008,
        0x2009, 0x200A, 0x2028, 0x2029, 0x202F, 0x205F, 0x3000])"

definition is_ascii_digit :: "codepoint \<Rightarrow> bool" where
  "is_ascii_digit c = (0x30 \<le> c \<and> c \<le> 0x39)"

definition sample_lower_char :: "codepoint \<Rightarrow> codepoint" where
  "sample_lower_char c =
     (if (0x41 \<le> c \<and> c \<le> 0x5A) \<or> (0xC0 \<le> c \<and> c \<le> 0xDE \<and> c \<noteq> 0xD7) then c + 32
      else c)"

definition sample_decomposition :: "(codepoint \<times> ustring) list" where
  "sample_decomposition =
     [
      (0xC0, [0x41, 0x300]), (0xC1, [0x41, 0x301]), (0xC2, [0x41, 0x302]), (0xC3, [0x41, 0x303]),
      (0xC4, [0x41, 0x308]), (0xC5, [0x41, 0x30A]), (0xC7, [0x43, 0x327]), (0xC8, [0x45, 0x300]),
      (0xC9, [0x45, 0x301]), (0xCA, [0x45, 0x302]), (0xCB, [0x45, 0x308]), (0xCC, [0x49, 0x300]),
      (0xCD, [0x49, 0x301]), (0xCE, [0x49, 0x302]), (0xCF, [0x49, 0x308]), (0xD1, [0x4E, 0x303]),
      (0xD2, [0x4F, 0x300]), (0xD3, [0x4F, 0x301]), (0xD4, [0x4F, 0x302]), (0xD5, [0x4F, 0x303]),
      (0xD6, [0x4F, 0x308]), (0xD9, [0x55, 0x300]), (0xDA, [0x55, 0x301]), (0xDB, [0x55, 0x302]),
      (0xDC, [0x55, 0x308]), (0xDD, [0x59, 0x301]), (0xE0, [0x61, 0x300]), (0xE1, [0x61, 0x301]),
      (0xE2, [0x61, 0x302]), (0xE3, [0x61, 0x303]), (0xE4, [0x61, 0x308]), (0xE5, [0x61, 0x30A]),
      (0xE7, [0x63, 0x327]), (0xE8, [0x65, 0x300]), (0xE9, [0x65, 0x301]), (0xEA, [0x65, 0x302]),
      (0xEB, [0x65, 0x308]), (0xEC, [0x69, 0x300]), (0xED, [0x69, 0x301]), (0xEE, [0x69, 0x302]),
      (0xEF, [0x69, 0x308]), (0xF1, [0x6E, 0x303]), (0xF2, [0x6F, 0x300]), (0xF3, [0x6F, 0x301]),
      (0xF4, [0x6F, 0x302]), (0xF5, [0x6F, 0x303]), (0xF6, [0x6F, 0x308]), (0xF9, [0x75, 0x300]),
      (0xFA, [0x75, 0x301]), (0xFB, [0x75, 0x302]), (0xFC, [0x75, 0x308]), (0xFD, [0x79, 0x301]),
      (0xFF, [0x79, 0x308])]"

definition sample_nfd :: "ustring \<Rightarrow> ustring" where
  "sample_nfd s =
     concat (map (\<lambda>c. case map_of sample_decomposition c of Some d \<Rightarrow> d | None \<Rightarrow> [c]) s)"

definition sample_combining :: "codepoint \<Rightarrow> nat" where
  "sample_combining c =
     (if c \<in> set [0x300, 0x301, 0x302, 0x303, 0x308, 0x30A] then 230
      else if c = 0x327 then 202 else 0)"

definition digits_value :: "ustring \<Rightarrow> nat" where
  "digits_value s = foldl (\<lambda>acc c. 10 * acc + (c - 0x30)) 0 s"

definition sample_float_of_str :: "ustring \<Rightarrow> pyfloat option" where
  "sample_float_of_str s =
     (if s \<noteq> [] \<and> list_all is_ascii_digit s \<and> digits_value s \<le> 2 ^ 53
      then Some (Finite (of_nat (digits_value s))) else None)"

definition sample_float_of_int :: "int \<Rightarrow> pyfloat" where
  "sample_float_of_int i = Finite (of_int i)"

text \<open>
  An \<open>int\<close> overflows when it rounds beyond the largest double, that is from
  \<open>2 ^ 1024 - 2 ^ 970\<close> on in absolute value.
\<close>

definition sample_int_overflows :: "int \<Rightarrow> bool" where
  "sample_int_overflows i = (2 ^ 1024 - 2 ^ 970 \<le> \<bar>i\<bar>)"

definition sample_repr_float :: "pyfloat \<Rightarrow> ustring" where
  "sample_repr_float f =
     (case f of
        Finite r \<Rightarrow> str_int \<lfloor>r\<rfloor> @ ascii ''.0''
      | PosInf \<Rightarrow> ascii ''inf''
      | NegInf \<Rightarrow> ascii ''-inf''
      | NaN \<Rightarrow> ascii ''nan'')"

definition pad :: "nat \<Rightarrow> nat \<Rightarrow> ustring" where
  "pad width n = replicate (width - length (digits n)) 0x30 @ digits n"

definition sample_str_datetime :: "datetime \<Rightarrow> ustring" where
  "sample_str_datetime d =
     pad 4 (dt_year d) @ ascii ''-'' @ pad 2 (dt_month d) @ ascii ''-'' @ pad 2 (dt_day d)
       @ ascii '' '' @ pad 2 (dt_hour d) @ ascii '':'' @ pad 2 (dt_minute d) @ ascii '':''
       @ pad 2 (dt_second d)
       @ (if dt_microsecond d = 0 then [] else ascii ''.'' @ pad 6 (dt_microsecond d))"

definition days_in_month :: "nat \<Rightarrow> nat \<Rightarrow> nat" where
  "days_in_month y m =
     (if m = 2 then (if y mod 4 = 0 \<and> (y mod 100 \<noteq> 0 \<or> y mod 400 = 0) then 29 else 28)
      else if m \<in> set [4, 6, 9, 11] then 30 else 31)"

text \<open>
  The fields \<open>%m\<close> and \<open>%d\<close> as \<open>strptime\<close> reads them: one or two digits, in range (a
  day may also be a space and a digit).
\<close>

definition month_of :: "ustring \<Rightarrow> nat option" where
  "month_of s =
     (if list_all is_ascii_digit s \<and> (length s = 1 \<or> length s = 2)
         \<and> 1 \<le> digits_value s \<and> digits_value s \<le> 12
      then Some (digits_value s) else None)"

definition day_of :: "ustring \<Rightarrow> nat option" where
  "day_of s =
     (let t = (case s of c # rest \<Rightarrow> if c = 0x20 \<and> length rest = 1 then rest else s | [] \<Rightarrow> s)
      in if list_all is_ascii_digit t \<and> (length t = 1 \<or> length t = 2)
            \<and> 1 \<le> digits_value t \<and> digits_value t \<le> 31
         then Some (digits_value t) else None)"

definition sample_strptime_ymd :: "ustring \<Rightarrow> datetime option" where
  "sample_strptime_ymd s =
     (let y = take 4 s; rest = drop 5 s;
          m = takeWhile (\<lambda>c. c \<noteq> 0x2D) rest;
          d = drop 1 (dropWhile (\<lambda>c. c \<noteq> 0x2D) rest)
      in if length y = 4 \<and> list_all is_ascii_digit y \<and> take 1 (drop 4 s) = [0x2D]
            \<and> dropWhile (\<lambda>c. c \<noteq> 0x2D) rest \<noteq> []
         then (case (month_of m, day_of d) of
                 (Some month, Some day) \<Rightarrow>
                   if 1 \<le> digits_value y \<and> day \<le> days_in_month (digits_value y) month
                   then Some (DateTime (digits_value y) month day 0 0 0 0) else None
               | _ \<Rightarrow> None)
         else None)"

definition sample_lib :: pylib where
  "sample_lib =
     \<lparr>isspace = sample_isspace,
      isdecimal = is_ascii_digit,
      lower = map sample_lower_char,
      nfd = sample_nfd,
      combining = sample_combining,
      float_of_str = sample_float_of_str,
      float_of_int = sample_float_of_int,
      int_overflows = sample_int_overflows,
      repr_float = sample_repr_float,
      str_datetime = sample_str_datetime,
      strptime_ymd = sample_strptime_ymd\<rparr>"

section \<open>The normaliser as the specification words it\<close>

text \<open>
  Section 4.1 of the specification: coerce to string, strip leading and trailing
  whitespace, decompose canonically, drop all combining marks, strip the fixed punctuation
  set, lowercase; empty or null input yields the empty string. This definition follows
  those words, to be compared with \<open>normalize_text_for_comparison\<close>, which follows the
  code.
\<close>

definition spec_normalize_for_comparison :: "pylib \<Rightarrow> pyval \<Rightarrow> ustring" where
  "spec_normalize_for_comparison L text =
     (if text = PNone \<or> text = PStr [] then []
      else lower L (remove_symbols (filter (\<lambda>c. combining L c = 0)
             (nfd L (strip L (py_str L text))))))"

text \<open>
  The code points of the sample library that its folding steps leave alone: no mark, no
  stripped symbol, lower case, without decomposition.
\<close>

definition sample_folded :: "codepoint \<Rightarrow> bool" where
  "sample_folded c =
     (sample_combining c = 0 \<and> c \<notin> set symbols \<and> sample_lower_char c = c
      \<and> map_of sample_decomposition c = None)"

text \<open>The words of a text put together again with one space between them.\<close>

fun join_words :: "ustring list \<Rightarrow> ustring" where
  "join_words [] = []"
| "join_words [w] = w"
| "join_words (w # v # ws) = w @ 32 # join_words (v # ws)"

section \<open>The bucket of a column as the specification words it\<close>

text \<open>
  Section 3 of the specification: the bucket of a column is determined by the shape of
  its first raw value: a date pattern gives the date bucket, else a comparison operator
  and digits give the numeric bucket, else a list of genuine booleans gives the boolean
  bucket, else the string bucket. \<open>bucket_keys\<close> are the columns a compiled rule holds
  in a bucket.
\<close>

datatype field_kind = DateField | NumericField | BooleanField | StringField

definition spec_field_kind :: "pylib \<Rightarrow> pyval list \<Rightarrow> field_kind option" where
  "spec_field_kind L vs =
     (case vs of
        [] \<Rightarrow> None
      | v0 # _ \<Rightarrow>
          Some (if is_date_field L (py_str L v0) then DateField
                else if is_numeric_field L (py_str L v0) then NumericField
                else if is_boolean_field vs then BooleanField
                else StringField))"

fun bucket_keys :: "processed_pattern \<Rightarrow> field_kind \<Rightarrow> ustring set" where
  "bucket_keys p DateField = fst ` set (date_fields p)"
| "bucket_keys p NumericField = fst ` set (numeric_fields p)"
| "bucket_keys p BooleanField = fst ` set (boolean_fields p)"
| "bucket_keys p StringField = fst ` set (string_fields p)"

section \<open>Evaluating the sample library\<close>

lemma ascii_simps [simp]: "ascii [] = []" "ascii (c # cs) = of_char c # ascii cs"
  by (simp_all add: ascii_def)

lemma sample_lib_sel:
  "isspace sample_lib = sample_isspace"
  "isdecimal sample_lib = is_ascii_digit"
  "lower sample_lib = map sample_lower_char"
  "nfd sample_lib = sample_nfd"
  "combining sample_lib = sample_combining"
  "float_of_str sample_lib = sample_float_of_str"
  "float_of_int sample_lib = sample_float_of_int"
  "int_overflows sample_lib = sample_int_overflows"
  "repr_float sample_lib = sample_repr_float"
  "str_datetime sample_lib = sample_str_datetime"
  "strptime_ymd sample_lib = sample_strptime_ymd"
  by (simp_all add: sample_lib_def)

lemmas sample_text = sample_lib_sel sample_isspace_def is_ascii_digit_def sample_lower_char_def
  sample_nfd_def sample_decomposition_def sample_combining_def strip_def remove_symbols_def
  symbols_def

lemma ncn_foro: "normalize_column_name sample_lib (ascii ''foro'') = ascii ''foro''"
  unfolding normalize_column_name_def Let_def
  by (simp add: sample_text column_mappings_def)

lemma ncn_pais: "normalize_column_name sample_lib (ascii ''pais'') = ascii ''pais''"
  unfolding normalize_column_name_def Let_def
  by (simp add: sample_text column_mappings_def)

lemma ncn_seguidores:
  "normalize_column_name sample_lib (ascii ''seguidores'') = ascii ''seguidores''"
  unfolding normalize_column_name_def Let_def
  by (simp add: sample_text column_mappings_def)

lemma ncn_edad: "normalize_column_name sample_lib (ascii ''edad'') = ascii ''edad''"
  unfolding normalize_column_name_def Let_def
  by (simp add: sample_text column_mappings_def)

lemma two_to_1024_overflows: "float_overflows sample_lib (PInt (2 ^ 1024))"
  by (simp add: sample_lib_sel sample_int_overflows_def)

section \<open>Facts about the row matcher\<close>

lemma find_column_mem:
  "find_column_case_insensitive L column_name row_index = Some col \<Longrightarrow> col \<in> set row_index"
  by (induction row_index) (auto simp: Let_def split: if_splits)

lemma find_column_None_iff:
  "find_column_case_insensitive L column_name row_index = None \<longleftrightarrow>
     (\<forall>col \<in> set row_index. normalize_column_name L col \<noteq> normalize_column_name L column_name)"
  by (induction row_index) (auto simp: Let_def)

lemma row_cells_single:
  assumes "distinct (map fst row)" and "col \<in> fst ` set row"
  shows "\<exists>v. row_cells row col = [v] \<and> v \<in> snd ` set row"
  using assms
proof (induction row)
  case Nil
  then show ?case by simp
next
  case (Cons p row)
  obtain l v where p: "p = (l, v)" by (cases p)
  show ?case
  proof (cases "l = col")
    case True
    then have "col \<notin> fst ` set row"
      using Cons.prems(1) p by auto
    then have "filter (\<lambda>(l, v). l = col) row = []"
      by (force simp: filter_empty_conv)
    then show ?thesis
      using True p by (simp add: row_cells_def)
  next
    case False
    then have "col \<in> fst ` set row" and "distinct (map fst row)"
      using Cons.prems p by auto
    then obtain w where "row_cells row col = [w]" "w \<in> snd ` set row"
      using Cons.IH by blast
    then show ?thesis
      using False p by (auto simp: row_cells_def)
  qed
qed

lemma check_fields_cases:
  "check_fields L check row bucket matched count = Return False
   \<or> (\<exists>e. check_fields L check row bucket matched count = Raise e)
   \<or> (\<exists>m t. check_fields L check row bucket matched count = Continue m t)"
proof (induction bucket arbitrary: matched count)
  case Nil
  show ?case by simp
next
  case (Cons f bucket)
  obtain column_name conds where f: "f = (column_name, conds)" by (cases f)
  show ?case
    using Cons.IH
    by (auto simp: f split: option.splits list.splits sum.splits)
qed

lemma check_fields_missing:
  assumes "column_name \<in> fst ` set bucket"
    and "find_column_case_insensitive L column_name (map fst row) = None"
  shows "check_fields L check row bucket matched count = Return False
         \<or> (\<exists>e. check_fields L check row bucket matched count = Raise e)"
  using assms(1)
proof (induction bucket arbitrary: matched count)
  case Nil
  then show ?case by simp
next
  case (Cons f bucket)
  obtain c conds where f: "f = (c, conds)" by (cases f)
  show ?case
  proof (cases "c = column_name")
    case True
    then show ?thesis using assms(2) by (simp add: f)
  next
    case False
    with Cons.prems f have "column_name \<in> fst ` set bucket" by auto
    then show ?thesis
      using Cons.IH
      by (auto simp: f split: option.splits list.splits sum.splits)
  qed
qed

lemma check_fields_no_raise:
  assumes "distinct (map fst row)"
    and "\<And>v conds e. v \<in> snd ` set row \<Longrightarrow> check v conds \<noteq> Inl e"
  shows "check_fields L check row bucket matched count \<noteq> Raise e"
proof (induction bucket arbitrary: matched count)
  case Nil
  show ?case by simp
next
  case (Cons f bucket)
  obtain column_name conds where f: "f = (column_name, conds)" by (cases f)
  show ?case
  proof (cases "find_column_case_insensitive L column_name (map fst row)")
    case None
    then show ?thesis by (simp add: f)
  next
    case (Some col)
    then have "col \<in> fst ` set row"
      using find_column_mem by fastforce
    then obtain v where v: "row_cells row col = [v]" "v \<in> snd ` set row"
      using row_cells_single [OF assms(1)] by blast
    then obtain holds where "check v conds = Inr holds"
      using assms(2) [of v conds] by (cases "check v conds") auto
    then show ?thesis
      using Some v Cons.IH by (simp add: f)
  qed
qed

lemma check_numeric_no_raise:
  "\<not> float_overflows L v \<Longrightarrow> check_numeric_condition L v conds \<noteq> Inl e"
  by (auto simp: check_numeric_condition_def split: option.splits)

lemma check_row_no_raise:
  assumes "distinct (map fst row)" and "\<forall>v \<in> snd ` set row. \<not> float_overflows L v"
  shows "check_row_matches_pattern L self row pattern_name \<noteq> Inl e"
proof -
  have s: "check_fields L (\<lambda>v c. Inr (check_string_condition L v c)) row b m t \<noteq> Raise e'"
    for b m t e'
    by (rule check_fields_no_raise [OF assms(1)]) simp
  have n: "check_fields L (check_numeric_condition L) row b m t \<noteq> Raise e'" for b m t e'
    by (rule check_fields_no_raise [OF assms(1)]) (use assms(2) check_numeric_no_raise in blast)
  have d: "check_fields L (\<lambda>v c. Inr (check_date_condition L v c)) row b m t \<noteq> Raise e'"
    for b m t e'
    by (rule check_fields_no_raise [OF assms(1)]) simp
  have b: "check_fields L (\<lambda>v c. Inr (check_boolean_condition L v c)) row b m t \<noteq> Raise e'"
    for b m t e'
    by (rule check_fields_no_raise [OF assms(1)]) simp
  show ?thesis
    using s n d b
    by (auto simp: check_row_matches_pattern_def split: option.splits outcome.splits)
qed

lemma check_row_true_continues:
  assumes "check_row_matches_pattern L self row pattern_name = Inr True"
    and "map_of (processed_patterns self) pattern_name = Some pattern"
  shows "\<exists>m1 t1 m2 t2 m3 t3 m4 t4.
           check_fields L (\<lambda>v c. Inr (check_string_condition L v c)) row
               (string_fields pattern) {} 0 = Continue m1 t1
           \<and> check_fields L (check_numeric_condition L) row (numeric_fields pattern) m1 t1
               = Continue m2 t2
           \<and> check_fields L (\<lambda>v c. Inr (check_date_condition L v c)) row
               (date_fields pattern) m2 t2 = Continue m3 t3
           \<and> check_fields L (\<lambda>v c. Inr (check_boolean_condition L v c)) row
               (boolean_fields pattern) m3 t3 = Continue m4 t4"
proof -
  note cases = check_fields_cases [of L _ row]
  let ?s = "check_fields L (\<lambda>v c. Inr (check_string_condition L v c)) row
               (string_fields pattern) {} 0"
  obtain m1 t1 where s: "?s = Continue m1 t1"
    using assms cases [of "\<lambda>v c. Inr (check_string_condition L v c)" "string_fields pattern" "{}" 0]
    by (auto simp: check_row_matches_pattern_def)
  let ?n = "check_fields L (check_numeric_condition L) row (numeric_fields pattern) m1 t1"
  obtain m2 t2 where n: "?n = Continue m2 t2"
    using assms s cases [of "check_numeric_condition L" "numeric_fields pattern" m1 t1]
    by (auto simp: check_row_matches_pattern_def)
  let ?d = "check_fields L (\<lambda>v c. Inr (check_date_condition L v c)) row
               (date_fields pattern) m2 t2"
  obtain m3 t3 where d: "?d = Continue m3 t3"
    using assms s n cases [of "\<lambda>v c. Inr (check_date_condition L v c)" "date_fields pattern" m2 t2]
    by (auto simp: check_row_matches_pattern_def)
  let ?b = "check_fields L (\<lambda>v c. Inr (check_boolean_condition L v c)) row
               (boolean_fields pattern) m3 t3"
  obtain m4 t4 where b: "?b = Continue m4 t4"
    using assms s n d
      cases [of "\<lambda>v c. Inr (check_boolean_condition L v c)" "boolean_fields pattern" m3 t3]
    by (auto simp: check_row_matches_pattern_def)
  from s n d b show ?thesis by blast
qed

lemma process_columns_skips_empty:
  "\<forall>(column_name, vs) \<in> set pattern_data. vs = [] \<Longrightarrow>
     process_columns L pattern_data processed = processed"
  by (induction pattern_data arbitrary: processed) auto

lemma process_patterns_other:
  "pattern_name \<notin> fst ` set patterns \<Longrightarrow>
     map_of (processed_patterns (process_patterns L self patterns)) pattern_name
       = map_of (processed_patterns self) pattern_name"
  by (induction patterns arbitrary: self) (auto simp: update_conv')

lemma process_patterns_lookup:
  "distinct (map fst patterns) \<Longrightarrow> (pattern_name, pattern_data) \<in> set patterns \<Longrightarrow>
     map_of (processed_patterns (process_patterns L self patterns)) pattern_name
       = Some (process_columns L pattern_data (empty_pattern pattern_data))"
proof (induction patterns arbitrary: self)
  case Nil
  then show ?case by simp
next
  case (Cons p patterns)
  obtain n d where p: "p = (n, d)" by (cases p)
  show ?case
  proof (cases "(pattern_name, pattern_data) = p")
    case True
    with Cons.prems p have "pattern_name \<notin> fst ` set patterns" by auto
    with True p show ?thesis
      by (simp add: process_patterns_other update_conv')
  next
    case False
    with Cons.prems have "(pattern_name, pattern_data) \<in> set patterns" "distinct (map fst patterns)"
      by auto
    then show ?thesis using Cons.IH by (simp add: p)
  qed
qed

lemma empty_buckets_match:
  assumes "map_of (processed_patterns self) pattern_name = Some pattern"
    and "string_fields pattern = []" "numeric_fields pattern = []"
    and "date_fields pattern = []" "boolean_fields pattern = []"
  shows "check_row_matches_pattern L self row pattern_name = Inr True"
  using assms by (simp add: check_row_matches_pattern_def)

lemma strip_subset: "set (strip L s) \<subseteq> set s"
  by (auto simp: strip_def dest!: set_dropWhileD)

lemma clean_only_symbols:
  assumes "set s \<subseteq> set symbols"
  shows "clean_pattern_text L (PStr s) = []"
proof -
  have "set (strip L s) \<subseteq> set symbols"
    using assms strip_subset by blast
  then have "remove_symbols (strip L s) = []"
    unfolding remove_symbols_def by (auto simp: filter_empty_conv)
  then show ?thesis by (simp add: clean_pattern_text_def)
qed

lemma any_pattern_matches_empty:
  assumes "pattern_value \<in> set pattern_values"
    and "normalize_text_for_comparison L (PStr pattern_value) = []"
  shows "any_pattern_matches L row_str pattern_values"
  using assms by (induction pattern_values) (auto simp: Let_def)

section \<open>The claims\<close>

text \<open>
  C1, as stated, fails on two rows, on which the matcher raises before it reaches the
  absent column and so does not return \<open>False\<close>.

  In the first the rule has the string columns \<open>foro\<close> and \<open>pais\<close>, and the row has two
  columns \<open>foro\<close> and none that normalises to \<open>pais\<close>: \<open>row['foro']\<close> is a \<open>Series\<close>, and
  \<open>if pd.isna(row_value)\<close> raises \<open>ValueError\<close>.

  In the second the rule has the numeric columns \<open>seguidores\<close> and \<open>edad\<close>, and the row has
  the one column \<open>seguidores\<close>, whose cell is the integer \<open>2 ^ 1024\<close>: \<open>float(row_value)\<close>
  raises \<open>OverflowError\<close>, which \<open>except (ValueError, TypeError)\<close> lets through.
\<close>

theorem matcher_raises_counterexample:
  "ascii ''pais'' \<in> fst ` set [(ascii ''foro'', [ascii ''cnn'']), (ascii ''pais'', [ascii ''es''])]
   \<and> normalize_column_name sample_lib (ascii ''foro'')
       \<noteq> normalize_column_name sample_lib (ascii ''pais'')
   \<and> check_row_matches_pattern sample_lib
        \<lparr>processed_patterns =
           [(ascii ''r'',
             \<lparr>string_fields = [(ascii ''foro'', [ascii ''cnn'']), (ascii ''pais'', [ascii ''es''])],
              numeric_fields = [], date_fields = [], boolean_fields = [],
              original_pattern = []\<rparr>)],
         results = [], column_mapping = []\<rparr>
        [(ascii ''foro'', PStr (ascii ''CNN'')), (ascii ''foro'', PStr (ascii ''BBC''))]
        (ascii ''r'')
       = Inl ValueError
   \<and> normalize_column_name sample_lib (ascii ''seguidores'')
       \<noteq> normalize_column_name sample_lib (ascii ''edad'')
   \<and> check_row_matches_pattern sample_lib
        \<lparr>processed_patterns =
           [(ascii ''r'',
             \<lparr>string_fields = [],
              numeric_fields =
                [(ascii ''seguidores'',
                  [\<lparr>operator = 62, cond_value = Finite 1000,
                    original = PStr (ascii ''>1000'')\<rparr>]),
                 (ascii ''edad'',
                  [\<lparr>operator = 62, cond_value = Finite 18,
                    original = PStr (ascii ''>18'')\<rparr>])],
              date_fields = [], boolean_fields = [],
              original_pattern = []\<rparr>)],
         results = [], column_mapping = []\<rparr>
        [(ascii ''seguidores'', PInt (2 ^ 1024))]
        (ascii ''r'')
       = Inl OverflowError"
proof -
  have "normalize_column_name sample_lib (ascii ''foro'')
          \<noteq> normalize_column_name sample_lib (ascii ''pais'')"
    using ncn_foro ncn_pais by simp
  moreover have "normalize_column_name sample_lib (ascii ''seguidores'')
          \<noteq> normalize_column_name sample_lib (ascii ''edad'')"
    using ncn_seguidores ncn_edad by simp
  ultimately show ?thesis
    using two_to_1024_overflows
    by (simp add: check_row_matches_pattern_def row_cells_def check_numeric_condition_def
        Let_def)
qed

text \<open>
  C1, amended. A rule that names a column for which the row has no column of the same
  normalised name never matches that row, whatever the other columns of the rule and of
  the row are: the matcher does not return \<open>True\<close>. It returns \<open>False\<close> on every row whose
  labels are pairwise different and whose cells are no integers beyond the doubles; on
  the other rows it returns \<open>False\<close> or raises, and \<open>apply_patterns\<close> catches what it raises
  and leaves the row out. The rule is any compiled rule held by the analyzer; the absent
  column may sit in any of the four buckets.
\<close>

theorem missing_column_never_matches:
  assumes "map_of (processed_patterns self) pattern_name = Some pattern"
    and "column_name \<in> fst ` set (string_fields pattern) \<union> fst ` set (numeric_fields pattern)
           \<union> fst ` set (date_fields pattern) \<union> fst ` set (boolean_fields pattern)"
    and "\<forall>col \<in> fst ` set row.
           normalize_column_name L col \<noteq> normalize_column_name L column_name"
  shows "check_row_matches_pattern L self row pattern_name \<noteq> Inr True
         \<and> (distinct (map fst row) \<and> (\<forall>v \<in> snd ` set row. \<not> float_overflows L v)
              \<longrightarrow> check_row_matches_pattern L self row pattern_name = Inr False)"
proof -
  have none: "find_column_case_insensitive L column_name (map fst row) = None"
    using assms(3) by (simp add: find_column_None_iff)
  have never: "check_row_matches_pattern L self row pattern_name \<noteq> Inr True"
  proof
    assume "check_row_matches_pattern L self row pattern_name = Inr True"
    from check_row_true_continues [OF this assms(1)]
    obtain m1 t1 m2 t2 m3 t3 m4 t4 where
      s: "check_fields L (\<lambda>v c. Inr (check_string_condition L v c)) row
            (string_fields pattern) {} 0 = Continue m1 t1"
      and n: "check_fields L (check_numeric_condition L) row (numeric_fields pattern) m1 t1
            = Continue m2 t2"
      and d: "check_fields L (\<lambda>v c. Inr (check_date_condition L v c)) row
            (date_fields pattern) m2 t2 = Continue m3 t3"
      and b: "check_fields L (\<lambda>v c. Inr (check_boolean_condition L v c)) row
            (boolean_fields pattern) m3 t3 = Continue m4 t4"
      by blast
    have "column_name \<notin> fst ` set (string_fields pattern)"
    proof
      assume a: "column_name \<in> fst ` set (string_fields pattern)"
      show False
        using check_fields_missing
          [where check = "\<lambda>v c. Inr (check_string_condition L v c)" and matched = "{}"
             and count = 0, OF a none] s
        by auto
    qed
    moreover have "column_name \<notin> fst ` set (numeric_fields pattern)"
    proof
      assume a: "column_name \<in> fst ` set (numeric_fields pattern)"
      show False
        using check_fields_missing
          [where check = "check_numeric_condition L" and matched = m1 and count = t1,
             OF a none] n
        by auto
    qed
    moreover have "column_name \<notin> fst ` set (date_fields pattern)"
    proof
      assume a: "column_name \<in> fst ` set (date_fields pattern)"
      show False
        using check_fields_missing
          [where check = "\<lambda>v c. Inr (check_date_condition L v c)" and matched = m2
             and count = t2, OF a none] d
        by auto
    qed
    moreover have "column_name \<notin> fst ` set (boolean_fields pattern)"
    proof
      assume a: "column_name \<in> fst ` set (boolean_fields pattern)"
      show False
        using check_fields_missing
          [where check = "\<lambda>v c. Inr (check_boolean_condition L v c)" and matched = m3
             and count = t3, OF a none] b
        by auto
    qed
    ultimately show False using assms(2) by blast
  qed
  have "check_row_matches_pattern L self row pattern_name = Inr False"
    if "distinct (map fst row) \<and> (\<forall>v \<in> snd ` set row. \<not> float_overflows L v)"
  proof (cases "check_row_matches_pattern L self row pattern_name")
    case (Inl e)
    then show ?thesis
      using check_row_no_raise [of row L self pattern_name e] that by blast
  next
    case (Inr b)
    then show ?thesis using never by (cases b) simp_all
  qed
  with never show ?thesis by blast
qed

text \<open>
  An instance of the amended C1: the row has one column \<open>foro\<close>, which satisfies the
  rule, and no column \<open>pais\<close>.
\<close>

theorem missing_column_never_matches_witness:
  "let pattern = \<lparr>string_fields = [(ascii ''foro'', [ascii ''cnn'']), (ascii ''pais'', [ascii ''es''])],
                  numeric_fields = [], date_fields = [], boolean_fields = [],
                  original_pattern = []\<rparr>;
       self = \<lparr>processed_patterns = [(ascii ''r'', pattern)], results = [], column_mapping = []\<rparr>;
       row = [(ascii ''foro'', PStr (ascii ''CNN''))]
   in map_of (processed_patterns self) (ascii ''r'') = Some pattern
      \<and> ascii ''pais'' \<in> fst ` set (string_fields pattern) \<union> fst ` set (numeric_fields pattern)
           \<union> fst ` set (date_fields pattern) \<union> fst ` set (boolean_fields pattern)
      \<and> (\<forall>col \<in> fst ` set row.
            normalize_column_name sample_lib col \<noteq> normalize_column_name sample_lib (ascii ''pais''))
      \<and> distinct (map fst row) \<and> (\<forall>v \<in> snd ` set row. \<not> float_overflows sample_lib v)
      \<and> check_row_matches_pattern sample_lib self row (ascii ''r'') = Inr False"
proof -
  have "normalize_column_name sample_lib (ascii ''foro'')
          \<noteq> normalize_column_name sample_lib (ascii ''pais'')"
    using ncn_foro ncn_pais by simp
  then show ?thesis
    using missing_column_never_matches
      [of "\<lparr>processed_patterns = [(ascii ''r'',
              \<lparr>string_fields = [(ascii ''foro'', [ascii ''cnn'']), (ascii ''pais'', [ascii ''es''])],
               numeric_fields = [], date_fields = [], boolean_fields = [],
               original_pattern = []\<rparr>)], results = [], column_mapping = []\<rparr>"
          "ascii ''r''"
          "\<lparr>string_fields = [(ascii ''foro'', [ascii ''cnn'']), (ascii ''pais'', [ascii ''es''])],
               numeric_fields = [], date_fields = [], boolean_fields = [],
               original_pattern = []\<rparr>"
          "ascii ''pais''" "[(ascii ''foro'', PStr (ascii ''CNN''))]" sample_lib]
    by (simp add: Let_def)
qed

text \<open>
  C2. A compiled rule whose four buckets are empty matches every row; this is the case of
  a rule compiled from a pattern in which every column has an empty list of values, the
  empty pattern included.
\<close>

theorem rule_without_columns_matches_every_row:
  "(map_of (processed_patterns self) pattern_name = Some pattern
      \<and> string_fields pattern = [] \<and> numeric_fields pattern = []
      \<and> date_fields pattern = [] \<and> boolean_fields pattern = []
    \<longrightarrow> check_row_matches_pattern L self row pattern_name = Inr True)
   \<and> (distinct (map fst patterns) \<and> (pattern_name, pattern_data) \<in> set patterns
      \<and> (\<forall>(column_name, vs) \<in> set pattern_data. vs = [])
    \<longrightarrow> check_row_matches_pattern L (process_patterns L self patterns) row pattern_name
          = Inr True)"
proof (intro conjI impI)
  assume "map_of (processed_patterns self) pattern_name = Some pattern
      \<and> string_fields pattern = [] \<and> numeric_fields pattern = []
      \<and> date_fields pattern = [] \<and> boolean_fields pattern = []"
  then show "check_row_matches_pattern L self row pattern_name = Inr True"
    by (simp add: empty_buckets_match)
next
  assume a: "distinct (map fst patterns) \<and> (pattern_name, pattern_data) \<in> set patterns
      \<and> (\<forall>(column_name, vs) \<in> set pattern_data. vs = [])"
  then have "map_of (processed_patterns (process_patterns L self patterns)) pattern_name
               = Some (process_columns L pattern_data (empty_pattern pattern_data))"
    using process_patterns_lookup by blast
  moreover from a have "process_columns L pattern_data (empty_pattern pattern_data)
                          = empty_pattern pattern_data"
    using process_columns_skips_empty by blast
  ultimately have "map_of (processed_patterns (process_patterns L self patterns)) pattern_name
               = Some (empty_pattern pattern_data)"
    by simp
  then show "check_row_matches_pattern L (process_patterns L self patterns) row pattern_name
               = Inr True"
    by (rule empty_buckets_match) (simp_all add: empty_pattern_def)
qed

text \<open>An instance of C2, for a rule stored with empty buckets and for a compiled one.\<close>

theorem rule_without_columns_matches_every_row_witness:
  "check_row_matches_pattern sample_lib
     \<lparr>processed_patterns = [(ascii ''r'', empty_pattern [])], results = [], column_mapping = []\<rparr>
     [(ascii ''foro'', PStr (ascii ''CNN''))] (ascii ''r'') = Inr True
   \<and> check_row_matches_pattern sample_lib
       (process_patterns sample_lib
          \<lparr>processed_patterns = [(ascii ''r'', empty_pattern [])], results = [],
           column_mapping = []\<rparr>
          [(ascii ''q'', [(ascii ''foro'', [])])])
       [(ascii ''foro'', PStr (ascii ''CNN''))] (ascii ''q'') = Inr True"
proof -
  have "check_row_matches_pattern sample_lib
     \<lparr>processed_patterns = [(ascii ''r'', empty_pattern [])], results = [], column_mapping = []\<rparr>
     [(ascii ''foro'', PStr (ascii ''CNN''))] (ascii ''r'') = Inr True"
    using rule_without_columns_matches_every_row
      [where self = "\<lparr>processed_patterns = [(ascii ''r'', empty_pattern [])], results = [],
               column_mapping = []\<rparr>"
         and pattern_name = "ascii ''r''" and pattern = "empty_pattern []" and L = sample_lib
         and row = "[(ascii ''foro'', PStr (ascii ''CNN''))]"]
    by (simp add: empty_pattern_def)
  moreover have "check_row_matches_pattern sample_lib
       (process_patterns sample_lib
          \<lparr>processed_patterns = [(ascii ''r'', empty_pattern [])], results = [],
           column_mapping = []\<rparr>
          [(ascii ''q'', [(ascii ''foro'', [])])])
       [(ascii ''foro'', PStr (ascii ''CNN''))] (ascii ''q'') = Inr True"
    using rule_without_columns_matches_every_row
      [where self = "\<lparr>processed_patterns = [(ascii ''r'', empty_pattern [])], results = [],
               column_mapping = []\<rparr>"
         and pattern_name = "ascii ''q''" and L = sample_lib
         and row = "[(ascii ''foro'', PStr (ascii ''CNN''))]"
         and patterns = "[(ascii ''q'', [(ascii ''foro'', [])])]"
         and pattern_data = "[(ascii ''foro'', [])]"]
    by simp
  ultimately show ?thesis by simp
qed

subsection \<open>The string evaluator\<close>

lemma split_Nil: "split L [] = []"
  by (simp add: split_def)

lemma calculate_similarity_words:
  "calculate_similarity L text1 text2 =
     (if set (split L text1) = {} \<or> set (split L text2) = {} then 0
      else of_nat (card (set (split L text1) \<inter> set (split L text2)))
           / of_nat (card (set (split L text1) \<union> set (split L text2))))"
  by (auto simp: calculate_similarity_def Let_def split_Nil)

lemma any_pattern_matches_iff:
  "any_pattern_matches L row_str pattern_values \<longleftrightarrow>
     (\<exists>p \<in> set pattern_values.
        sublist (normalize_text_for_comparison L (PStr p)) row_str
        \<or> sublist row_str (normalize_text_for_comparison L (PStr p))
        \<or> calculate_similarity L (normalize_text_for_comparison L (PStr p)) row_str > 7 / 10)"
  by (induction pattern_values) (auto simp: Let_def)

lemma n_cafe: "normalize_text_for_comparison sample_lib (PStr (ascii ''cafe'')) = ascii ''cafe''"
  unfolding normalize_text_for_comparison_def Let_def by (simp add: sample_text)

lemma n_Cafe_accent:
  "normalize_text_for_comparison sample_lib (PStr (ascii ''Caf'' @ [0xE9])) = ascii ''cafe''"
  unfolding normalize_text_for_comparison_def Let_def by (simp add: sample_text)

lemma n_mi_cafe_favorito:
  "normalize_text_for_comparison sample_lib (PStr (ascii ''mi cafe favorito''))
     = ascii ''mi cafe favorito''"
  unfolding normalize_text_for_comparison_def Let_def by (simp add: sample_text)

lemma clean_cafe: "clean_pattern_text sample_lib (PStr (ascii ''cafe'')) = ascii ''cafe''"
  unfolding clean_pattern_text_def Let_def by (simp add: sample_text)

lemma not_date_cafe: "\<not> is_date_field sample_lib (ascii ''cafe'')"
  by (simp add: is_date_field_def is_operator_def)

lemma not_numeric_cafe: "\<not> is_numeric_field sample_lib (ascii ''cafe'')"
  by (simp add: is_numeric_field_def is_operator_def)

lemma compile_foro_cafe:
  "process_patterns sample_lib \<lparr>processed_patterns = [], results = [], column_mapping = []\<rparr>
     [(ascii ''r'', [(ascii ''foro'', [PStr (ascii ''cafe'')])])]
   = \<lparr>processed_patterns =
        [(ascii ''r'',
          \<lparr>string_fields = [(ascii ''foro'', [ascii ''cafe''])], numeric_fields = [],
           date_fields = [], boolean_fields = [],
           original_pattern = [(ascii ''foro'', [PStr (ascii ''cafe'')])]\<rparr>)],
      results = [], column_mapping = []\<rparr>"
  using ncn_foro clean_cafe not_date_cafe not_numeric_cafe
  by (simp add: empty_pattern_def is_boolean_field_def Let_def)

lemma foro_cafe_matches:
  assumes "normalize_text_for_comparison sample_lib cell = ascii ''cafe''
           \<or> normalize_text_for_comparison sample_lib cell = ascii ''mi cafe favorito''"
    and "\<not> isna cell"
  shows "check_row_matches_pattern sample_lib
     \<lparr>processed_patterns =
        [(ascii ''r'',
          \<lparr>string_fields = [(ascii ''foro'', [ascii ''cafe''])], numeric_fields = [],
           date_fields = [], boolean_fields = [],
           original_pattern = [(ascii ''foro'', [PStr (ascii ''cafe'')])]\<rparr>)],
      results = [], column_mapping = []\<rparr>
     [(ascii ''foro'', cell)] (ascii ''r'') = Inr True"
proof -
  have "check_string_condition sample_lib cell [ascii ''cafe'']"
    using assms n_cafe
    by (auto simp: check_string_condition_def Let_def sublist_code prefix_code)
  then show ?thesis
    by (simp add: check_row_matches_pattern_def row_cells_def Let_def)
qed

text \<open>
  C3. The string evaluator rejects a missing cell; for any other cell it accepts exactly
  when, for some pattern value, with both sides normalised for comparison, the pattern is
  part of the cell, or the cell is part of the pattern, or their similarity exceeds 0.7.
  The similarity is the number of common words over the number of words of either text,
  the words being the pieces between whitespace, and 0 when a side has no word. The rule
  \<open>{"foro": ["cafe"]}\<close> matches the row whose cell is \<open>Caf\<close> followed by U+00E9 (e with acute) and the row whose cell is \<open>mi cafe favorito\<close>.
\<close>

theorem string_condition_characterised:
  "(check_string_condition L row_value pattern_values \<longleftrightarrow>
      \<not> isna row_value
      \<and> (\<exists>p \<in> set pattern_values.
            let normalized_pattern = normalize_text_for_comparison L (PStr p);
                row_str = normalize_text_for_comparison L row_value
            in sublist normalized_pattern row_str \<or> sublist row_str normalized_pattern
               \<or> calculate_similarity L normalized_pattern row_str > 7 / 10))
   \<and> calculate_similarity L text1 text2 =
       (if set (split L text1) = {} \<or> set (split L text2) = {} then 0
        else of_nat (card (set (split L text1) \<inter> set (split L text2)))
             / of_nat (card (set (split L text1) \<union> set (split L text2))))
   \<and> check_row_matches_pattern sample_lib
        (process_patterns sample_lib \<lparr>processed_patterns = [], results = [], column_mapping = []\<rparr>
           [(ascii ''r'', [(ascii ''foro'', [PStr (ascii ''cafe'')])])])
        [(ascii ''foro'', PStr (ascii ''Caf'' @ [0xE9]))] (ascii ''r'') = Inr True
   \<and> check_row_matches_pattern sample_lib
        (process_patterns sample_lib \<lparr>processed_patterns = [], results = [], column_mapping = []\<rparr>
           [(ascii ''r'', [(ascii ''foro'', [PStr (ascii ''cafe'')])])])
        [(ascii ''foro'', PStr (ascii ''mi cafe favorito''))] (ascii ''r'') = Inr True"
proof (intro conjI)
  show "check_string_condition L row_value pattern_values \<longleftrightarrow>
      \<not> isna row_value
      \<and> (\<exists>p \<in> set pattern_values.
            let normalized_pattern = normalize_text_for_comparison L (PStr p);
                row_str = normalize_text_for_comparison L row_value
            in sublist normalized_pattern row_str \<or> sublist row_str normalized_pattern
               \<or> calculate_similarity L normalized_pattern row_str > 7 / 10)"
    by (simp add: check_string_condition_def any_pattern_matches_iff Let_def)
  show "calculate_similarity L text1 text2 =
       (if set (split L text1) = {} \<or> set (split L text2) = {} then 0
        else of_nat (card (set (split L text1) \<inter> set (split L text2)))
             / of_nat (card (set (split L text1) \<union> set (split L text2))))"
    by (rule calculate_similarity_words)
  show "check_row_matches_pattern sample_lib
        (process_patterns sample_lib \<lparr>processed_patterns = [], results = [], column_mapping = []\<rparr>
           [(ascii ''r'', [(ascii ''foro'', [PStr (ascii ''cafe'')])])])
        [(ascii ''foro'', PStr (ascii ''Caf'' @ [0xE9]))] (ascii ''r'') = Inr True"
    unfolding compile_foro_cafe using n_Cafe_accent by (intro foro_cafe_matches) simp_all
  show "check_row_matches_pattern sample_lib
        (process_patterns sample_lib \<lparr>processed_patterns = [], results = [], column_mapping = []\<rparr>
           [(ascii ''r'', [(ascii ''foro'', [PStr (ascii ''cafe'')])])])
        [(ascii ''foro'', PStr (ascii ''mi cafe favorito''))] (ascii ''r'') = Inr True"
    unfolding compile_foro_cafe using n_mi_cafe_favorito by (intro foro_cafe_matches) simp_all
qed

lemma n_hola: "normalize_text_for_comparison sample_lib (PStr (ascii ''hola mundo cruel''))
     = ascii ''hola mundo cruel''"
  unfolding normalize_text_for_comparison_def Let_def by (simp add: sample_text)

lemma n_mundo: "normalize_text_for_comparison sample_lib (PStr (ascii ''mundo hola cruel amigo''))
     = ascii ''mundo hola cruel amigo''"
  unfolding normalize_text_for_comparison_def Let_def by (simp add: sample_text)

lemma split_hola: "split sample_lib (ascii ''hola mundo cruel'')
     = [ascii ''hola'', ascii ''mundo'', ascii ''cruel'']"
  by (simp add: split_def sample_lib_sel sample_isspace_def)

lemma split_mundo: "split sample_lib (ascii ''mundo hola cruel amigo'')
     = [ascii ''mundo'', ascii ''hola'', ascii ''cruel'', ascii ''amigo'']"
  by (simp add: split_def sample_lib_sel sample_isspace_def)

text \<open>
  Instances of C3: a missing cell, and a cell accepted through the similarity alone
  (three common words out of four).
\<close>

theorem string_condition_characterised_witness:
  "\<not> check_string_condition sample_lib PNone [ascii ''cafe'']
   \<and> calculate_similarity sample_lib (ascii ''mundo hola cruel amigo'') (ascii ''hola mundo cruel'')
       = 3 / 4
   \<and> check_string_condition sample_lib (PStr (ascii ''hola mundo cruel''))
       [ascii ''mundo hola cruel amigo'']"
proof -
  note c3 = string_condition_characterised
  have a: "\<not> check_string_condition sample_lib PNone [ascii ''cafe'']"
    using c3 [of sample_lib PNone "[ascii ''cafe'']"] by simp
  have b: "calculate_similarity sample_lib (ascii ''mundo hola cruel amigo'')
             (ascii ''hola mundo cruel'') = 3 / 4"
    using c3 [where L = sample_lib and ?text1.0 = "ascii ''mundo hola cruel amigo''"
               and ?text2.0 = "ascii ''hola mundo cruel''"]
      split_hola split_mundo
    by (simp add: card_insert_if Int_insert_left)
  have c: "check_string_condition sample_lib (PStr (ascii ''hola mundo cruel''))
       [ascii ''mundo hola cruel amigo'']"
    using c3 [of sample_lib "PStr (ascii ''hola mundo cruel'')" "[ascii ''mundo hola cruel amigo'']"]
      n_hola n_mundo b
    by (simp add: Let_def)
  from a b c show ?thesis by simp
qed

subsection \<open>The text normaliser\<close>

lemma n_a_space_dot:
  "normalize_text_for_comparison sample_lib (PStr (ascii ''a .'')) = ascii ''a ''"
  unfolding normalize_text_for_comparison_def Let_def by (simp add: sample_text)

lemma n_a_space:
  "normalize_text_for_comparison sample_lib (PStr (ascii ''a '')) = ascii ''a''"
  unfolding normalize_text_for_comparison_def Let_def by (simp add: sample_text)

text \<open>
  C4, as stated, fails. The text \<open>a .\<close> is normalised to \<open>a\<close> followed by a space:
  the whitespace is stripped before the full stop is removed, so the space that stood
  before the full stop stays. Normalising that result strips the space.
\<close>

theorem normalize_not_idempotent_counterexample:
  "normalize_text_for_comparison sample_lib
     (PStr (normalize_text_for_comparison sample_lib (PStr (ascii ''a .''))))
   \<noteq> normalize_text_for_comparison sample_lib (PStr (ascii ''a .''))"
  using n_a_space_dot n_a_space by simp

lemma strip_strip: "strip L (strip L s) = strip L s"
proof -
  let ?P = "isspace L"
  let ?t = "dropWhile ?P s"
  let ?u = "dropWhile ?P (rev ?t)"
  have "dropWhile ?P (rev ?u) = rev ?u"
  proof (cases "?u = []")
    case True
    show ?thesis unfolding True by simp
  next
    case False
    have "rev ?t = takeWhile ?P (rev ?t) @ ?u" by simp
    then have "last (rev ?t) = last ?u"
      using False by (metis last_appendR)
    moreover have "?t \<noteq> []"
      using False by (metis dropWhile.simps(1) rev.simps(1))
    ultimately have "last ?u = hd ?t"
      by (simp add: last_rev)
    moreover have "\<not> ?P (hd ?t)"
      using \<open>?t \<noteq> []\<close> by (rule hd_dropWhile)
    ultimately have "\<not> ?P (hd (rev ?u))"
      using False by (simp add: hd_rev)
    then show ?thesis
      using False by (cases "rev ?u") auto
  qed
  then show ?thesis
    by (simp add: strip_def dropWhile_idem)
qed

text \<open>
  C4, amended. Normalising a normalised text strips its leading and trailing whitespace
  and changes nothing else, so the normaliser is idempotent exactly on the texts whose
  normalised form has no whitespace at either end. This holds for every library that
  leaves folded text alone: there is a class \<open>folded\<close> of code points to which all that
  the folding steps put out belongs, on text of which NFD and \<open>lower\<close> change nothing, and
  which has neither combining marks nor stripped symbols.
\<close>

theorem normalize_twice:
  assumes out: "\<And>s. list_all folded
                  (lower L (remove_symbols (filter (\<lambda>c. combining L c = 0) (nfd L s))))"
    and stable: "\<And>s. list_all folded s \<Longrightarrow> nfd L s = s \<and> lower L s = s"
    and plain: "\<And>c. folded c \<Longrightarrow> combining L c = 0 \<and> c \<notin> set symbols"
  shows "normalize_text_for_comparison L (PStr (normalize_text_for_comparison L text))
           = strip L (normalize_text_for_comparison L text)
         \<and> (normalize_text_for_comparison L (PStr (normalize_text_for_comparison L text))
              = normalize_text_for_comparison L text
            \<longleftrightarrow> strip L (normalize_text_for_comparison L text)
                 = normalize_text_for_comparison L text)"
proof -
  let ?r = "normalize_text_for_comparison L text"
  have r: "list_all folded ?r"
    using out by (simp add: normalize_text_for_comparison_def Let_def)
  have "set (strip L ?r) \<subseteq> set ?r" by (rule strip_subset)
  with r have s: "list_all folded (strip L ?r)"
    by (auto simp: list_all_iff)
  have "normalize_text_for_comparison L (PStr ?r) = strip L ?r"
  proof (cases "?r = []")
    case True
    then show ?thesis
      by (simp add: normalize_text_for_comparison_def strip_def)
  next
    case False
    have "filter (\<lambda>c. combining L c = 0) (strip L ?r) = strip L ?r"
      using s plain by (auto simp: list_all_iff filter_id_conv)
    moreover have "remove_symbols (strip L ?r) = strip L ?r"
      using s plain by (auto simp: list_all_iff filter_id_conv remove_symbols_def)
    ultimately show ?thesis
      using False stable [OF s] by (simp add: normalize_text_for_comparison_def Let_def)
  qed
  then show ?thesis by simp
qed

lemma sample_keys_paired:
  "\<forall>k \<in> set (map fst sample_decomposition). 0xE0 \<le> k \<and> k \<le> 0xFE \<longrightarrow>
     k - 32 \<in> set (map fst sample_decomposition)"
  by (simp add: sample_decomposition_def)

lemma sample_keys_high: "\<forall>k \<in> set (map fst sample_decomposition). 0xC0 \<le> k \<and> k \<le> 0xFF"
  by (simp add: sample_decomposition_def)

lemma sample_parts_folded:
  "\<forall>(k, d) \<in> set sample_decomposition.
     \<forall>c \<in> set d. sample_combining c = 0 \<longrightarrow> sample_folded (sample_lower_char c)"
  by (simp add: sample_decomposition_def sample_folded_def sample_combining_def
      sample_lower_char_def symbols_def)

lemma sample_nonkey_folded:
  assumes "map_of sample_decomposition x = None" and "sample_combining x = 0"
    and "x \<notin> set symbols"
  shows "sample_folded (sample_lower_char x)"
proof -
  have keys: "x \<notin> set (map fst sample_decomposition)"
    using assms(1) by (simp add: map_of_eq_None_iff)
  consider (ascii_upper) "0x41 \<le> x \<and> x \<le> 0x5A"
    | (latin_upper) "0xC0 \<le> x \<and> x \<le> 0xDE \<and> x \<noteq> 0xD7"
    | (other) "\<not> (0x41 \<le> x \<and> x \<le> 0x5A) \<and> \<not> (0xC0 \<le> x \<and> x \<le> 0xDE \<and> x \<noteq> 0xD7)"
    by blast
  then show ?thesis
  proof cases
    case ascii_upper
    then have "x + 32 \<notin> set (map fst sample_decomposition)"
      using sample_keys_high by fastforce
    then have "map_of sample_decomposition (x + 32) = None"
      by (simp add: map_of_eq_None_iff)
    then show ?thesis
      using ascii_upper
      by (auto simp: sample_folded_def sample_lower_char_def sample_combining_def symbols_def)
  next
    case latin_upper
    have "x + 32 \<notin> set (map fst sample_decomposition)"
    proof
      assume "x + 32 \<in> set (map fst sample_decomposition)"
      moreover have "0xE0 \<le> x + 32 \<and> x + 32 \<le> 0xFE"
        using latin_upper by simp
      ultimately have "x + 32 - 32 \<in> set (map fst sample_decomposition)"
        using sample_keys_paired by blast
      with keys show False by simp
    qed
    then have "map_of sample_decomposition (x + 32) = None"
      by (simp add: map_of_eq_None_iff)
    then show ?thesis
      using latin_upper
      by (auto simp: sample_folded_def sample_lower_char_def sample_combining_def symbols_def)
  next
    case other
    then have "sample_lower_char x = x"
      by (auto simp: sample_lower_char_def)
    then show ?thesis
      using assms by (simp add: sample_folded_def)
  qed
qed

lemma sample_decomposed_folded:
  assumes "c \<in> set (case map_of sample_decomposition x of Some d \<Rightarrow> d | None \<Rightarrow> [x])"
    and "sample_combining c = 0" and "c \<notin> set symbols"
  shows "sample_folded (sample_lower_char c)"
proof (cases "map_of sample_decomposition x")
  case None
  with assms show ?thesis by (simp add: sample_nonkey_folded)
next
  case (Some d)
  then have "(x, d) \<in> set sample_decomposition"
    by (rule map_of_SomeD)
  moreover have "c \<in> set d" using assms(1) Some by simp
  ultimately show ?thesis
    using sample_parts_folded assms(2) by blast
qed

lemma sample_out:
  "list_all sample_folded
     (lower sample_lib (remove_symbols
        (filter (\<lambda>c. combining sample_lib c = 0) (nfd sample_lib s))))"
  using sample_decomposed_folded
  by (auto simp: sample_lib_sel list_all_iff remove_symbols_def sample_nfd_def)

lemma sample_stable:
  "list_all sample_folded s \<Longrightarrow> nfd sample_lib s = s \<and> lower sample_lib s = s"
  by (induction s) (auto simp: sample_lib_sel sample_nfd_def sample_folded_def)

lemma sample_plain:
  "sample_folded c \<Longrightarrow> combining sample_lib c = 0 \<and> c \<notin> set symbols"
  by (simp add: sample_lib_sel sample_folded_def)

lemma strip_a_space: "strip sample_lib (ascii ''a '') = ascii ''a''"
  by (simp add: sample_text)

text \<open>
  Instances of the amended C4 in the sample library, which leaves folded text alone: the
  text \<open>a .\<close>, where the second pass strips a space, and \<open>cafe\<close>, where it changes
  nothing.
\<close>

theorem normalize_twice_witness:
  "normalize_text_for_comparison sample_lib
     (PStr (normalize_text_for_comparison sample_lib (PStr (ascii ''a .'')))) = ascii ''a''
   \<and> normalize_text_for_comparison sample_lib
       (PStr (normalize_text_for_comparison sample_lib (PStr (ascii ''cafe''))))
      = normalize_text_for_comparison sample_lib (PStr (ascii ''cafe''))"
proof -
  note twice = normalize_twice [of sample_folded sample_lib, OF sample_out sample_stable sample_plain]
  have "normalize_text_for_comparison sample_lib
     (PStr (normalize_text_for_comparison sample_lib (PStr (ascii ''a .'')))) = ascii ''a''"
    using twice [of "PStr (ascii ''a .'')"] n_a_space_dot strip_a_space by simp
  moreover have "strip sample_lib (ascii ''cafe'') = ascii ''cafe''"
    by (simp add: sample_text)
  then have "normalize_text_for_comparison sample_lib
       (PStr (normalize_text_for_comparison sample_lib (PStr (ascii ''cafe''))))
      = normalize_text_for_comparison sample_lib (PStr (ascii ''cafe''))"
    using twice [of "PStr (ascii ''cafe'')"] n_cafe by simp
  ultimately show ?thesis by simp
qed

lemma n_Cafe_bang:
  "normalize_text_for_comparison sample_lib (PStr (ascii ''Caf'' @ [0xE9] @ ascii ''!''))
     = ascii ''cafe''"
  unfolding normalize_text_for_comparison_def Let_def by (simp add: sample_text)

lemma n_HELLO_World:
  "normalize_text_for_comparison sample_lib (PStr (ascii ''  HELLO, World.  ''))
     = ascii ''hello world''"
  unfolding normalize_text_for_comparison_def Let_def by (simp add: sample_text)

text \<open>
  C5, as stated, fails on a cell that is the number zero (and likewise on \<open>False\<close>):
  the steps of the specification coerce it to the text \<open>0\<close>, while the guard
  \<open>if not text\<close> of the code answers the empty text before any coercion.
\<close>

theorem normalize_zero_counterexample:
  "normalize_text_for_comparison sample_lib (PInt 0) = []
   \<and> spec_normalize_for_comparison sample_lib (PInt 0) = ascii ''0''
   \<and> normalize_text_for_comparison sample_lib (PInt 0)
       \<noteq> spec_normalize_for_comparison sample_lib (PInt 0)"
  unfolding normalize_text_for_comparison_def spec_normalize_for_comparison_def
  by (simp add: str_int_def digits.simps sample_text)

text \<open>
  C5, amended. The normaliser answers the empty text for every input that Python counts
  as false: \<open>None\<close>, the empty text, and also zero and \<open>False\<close>. Every other input goes
  through the steps in the order the specification gives, so that code and specification
  agree on every input that is true, null or the empty text. In the sample library
  \<open>Caf\<close> followed by U+00E9 and \<open>!\<close> becomes \<open>cafe\<close>, and \<open>HELLO, World.\<close> between
  two spaces on either side becomes \<open>hello world\<close>.
\<close>

theorem normalize_steps:
  "(\<not> truthy text \<longrightarrow> normalize_text_for_comparison L text = [])
   \<and> (truthy text \<or> text = PNone \<or> text = PStr [] \<longrightarrow>
        normalize_text_for_comparison L text = spec_normalize_for_comparison L text)
   \<and> normalize_text_for_comparison sample_lib (PStr (ascii ''Caf'' @ [0xE9] @ ascii ''!''))
       = ascii ''cafe''
   \<and> normalize_text_for_comparison sample_lib (PStr (ascii ''  HELLO, World.  ''))
       = ascii ''hello world''"
proof (intro conjI impI)
  show "normalize_text_for_comparison L text = []" if "\<not> truthy text"
    using that by (simp add: normalize_text_for_comparison_def)
  show "normalize_text_for_comparison L text = spec_normalize_for_comparison L text"
    if "truthy text \<or> text = PNone \<or> text = PStr []"
    using that
    by (auto simp: normalize_text_for_comparison_def spec_normalize_for_comparison_def Let_def)
  show "normalize_text_for_comparison sample_lib (PStr (ascii ''Caf'' @ [0xE9] @ ascii ''!''))
       = ascii ''cafe''"
    by (rule n_Cafe_bang)
  show "normalize_text_for_comparison sample_lib (PStr (ascii ''  HELLO, World.  ''))
       = ascii ''hello world''"
    by (rule n_HELLO_World)
qed

text \<open>Instances of the amended C5: the value \<open>False\<close> and the number 15.\<close>

theorem normalize_steps_witness:
  "normalize_text_for_comparison sample_lib (PBool False) = []
   \<and> normalize_text_for_comparison sample_lib (PInt 15)
       = spec_normalize_for_comparison sample_lib (PInt 15)
   \<and> spec_normalize_for_comparison sample_lib (PInt 15) = ascii ''15''"
proof -
  have "spec_normalize_for_comparison sample_lib (PInt 15) = ascii ''15''"
    unfolding spec_normalize_for_comparison_def
    by (simp add: str_int_def digits.simps sample_text)
  then show ?thesis
    using normalize_steps [of "PBool False" sample_lib] normalize_steps [of "PInt 15" sample_lib]
    by simp
qed

subsection \<open>Column names\<close>

lemma join_words_Cons: "join_words (w # ws) = w @ (if ws = [] then [] else 32 # join_words ws)"
  by (cases ws) simp_all

lemma split_from_cur:
  "cur \<noteq> [] \<Longrightarrow>
     split_from L cur s =
       (cur @ takeWhile (\<lambda>c. \<not> isspace L c) s)
         # split_from L [] (dropWhile (\<lambda>c. \<not> isspace L c) s)"
  by (induction s arbitrary: cur) auto

lemma split_Cons_space: "isspace L c \<Longrightarrow> split L (c # cs) = split L cs"
  by (simp add: split_def)

lemma split_Cons_word:
  "\<not> isspace L c \<Longrightarrow>
     split L (c # cs) =
       (c # takeWhile (\<lambda>c. \<not> isspace L c) cs) # split L (dropWhile (\<lambda>c. \<not> isspace L c) cs)"
  by (simp add: split_def split_from_cur)

lemma split_dropWhile: "split L (dropWhile (isspace L) s) = split L s"
  by (induction s) (simp_all add: split_Cons_space)

lemma split_Cons_word_step:
  assumes "\<not> isspace L c"
  shows "split L (c # cs) =
           (if cs = [] \<or> isspace L (hd cs) then [c] # split L cs
            else (c # hd (split L cs)) # tl (split L cs))"
    and "cs \<noteq> [] \<and> \<not> isspace L (hd cs) \<longrightarrow> split L cs \<noteq> []"
proof -
  show "split L (c # cs) =
           (if cs = [] \<or> isspace L (hd cs) then [c] # split L cs
            else (c # hd (split L cs)) # tl (split L cs))"
  proof (cases cs)
    case Nil
    then show ?thesis using assms by (simp add: split_Cons_word)
  next
    case (Cons d ds)
    then show ?thesis using assms by (simp add: split_Cons_word)
  qed
  show "cs \<noteq> [] \<and> \<not> isspace L (hd cs) \<longrightarrow> split L cs \<noteq> []"
    by (cases cs) (simp_all add: split_Cons_word)
qed

lemma split_eq_Nil: "split L s = [] \<longleftrightarrow> (\<forall>c \<in> set s. isspace L c)"
proof (induction s)
  case Nil
  show ?case by (simp add: split_def)
next
  case (Cons c cs)
  then show ?case
    by (cases "isspace L c") (simp_all add: split_Cons_space split_Cons_word)
qed

lemma split_words:
  "w \<in> set (split L s) \<Longrightarrow> w \<noteq> [] \<and> (\<forall>c \<in> set w. \<not> isspace L c)"
proof (induction "length s" arbitrary: s rule: less_induct)
  case less
  show ?case
  proof (cases s)
    case Nil
    with less.prems show ?thesis by (simp add: split_def)
  next
    case (Cons c cs)
    show ?thesis
    proof (cases "isspace L c")
      case True
      then have "w \<in> set (split L cs)"
        using less.prems Cons by (simp add: split_Cons_space)
      then show ?thesis
        using less.hyps [of cs] Cons by simp
    next
      case False
      let ?rest = "dropWhile (\<lambda>c. \<not> isspace L c) cs"
      have len: "length ?rest < length s"
        using Cons length_dropWhile_le [of "\<lambda>c. \<not> isspace L c" cs] by simp
      have "w = c # takeWhile (\<lambda>c. \<not> isspace L c) cs \<or> w \<in> set (split L ?rest)"
        using less.prems Cons False by (simp add: split_Cons_word)
      then show ?thesis
      proof
        assume "w = c # takeWhile (\<lambda>c. \<not> isspace L c) cs"
        then show ?thesis
          using False by (auto dest: set_takeWhileD)
      next
        assume "w \<in> set (split L ?rest)"
        then show ?thesis
          using less.hyps [OF len] by blast
      qed
    qed
  qed
qed

lemma collapse_form:
  "collapse_spaces L s =
     (if s \<noteq> [] \<and> isspace L (hd s) then [32] else [])
       @ join_words (split L s)
       @ (if split L s \<noteq> [] \<and> isspace L (last s) then [32] else [])"
proof (induction L s rule: collapse_spaces.induct)
  case (1 L)
  show ?case by (simp add: split_def)
next
  case (2 L c cs)
  show ?case
  proof (cases "isspace L c")
    case True
    let ?d = "dropWhile (isspace L) cs"
    have ih: "collapse_spaces L ?d =
        (if ?d \<noteq> [] \<and> isspace L (hd ?d) then [32] else [])
          @ join_words (split L ?d)
          @ (if split L ?d \<noteq> [] \<and> isspace L (last ?d) then [32] else [])"
      using 2(1) True by simp
    have lead: "\<not> (?d \<noteq> [] \<and> isspace L (hd ?d))"
      using hd_dropWhile by blast
    have w: "split L ?d = split L cs" by (rule split_dropWhile)
    have lastd: "last ?d = last (c # cs)" if "split L cs \<noteq> []"
    proof -
      have "?d \<noteq> []"
        using that w by (metis split_eq_Nil empty_iff list.set(1))
      moreover have "cs = takeWhile (isspace L) cs @ ?d" by simp
      ultimately have "last cs = last ?d" by (metis last_appendR)
      moreover have "cs \<noteq> []" using \<open>?d \<noteq> []\<close> by auto
      ultimately show ?thesis by simp
    qed
    have c1: "collapse_spaces L (c # cs) = 32 # collapse_spaces L ?d"
      using True by simp
    have "(if ?d \<noteq> [] \<and> isspace L (hd ?d) then [32] else []) = ([]::ustring)"
      using lead by (rule if_not_P)
    then have c2: "collapse_spaces L ?d =
        join_words (split L cs)
          @ (if split L cs \<noteq> [] \<and> isspace L (last ?d) then [32] else [])"
      using ih by (simp only: w append_Nil)
    have c3: "(if split L cs \<noteq> [] \<and> isspace L (last ?d) then [32] else [])
        = (if split L cs \<noteq> [] \<and> isspace L (last (c # cs)) then [32::nat] else [])"
    proof (cases "split L cs = []")
      case True
      then show ?thesis by (simp only: not_True_eq_False simp_thms if_False)
    next
      case False
      then show ?thesis by (simp only: lastd [OF False])
    qed
    have c4: "(if c # cs \<noteq> [] \<and> isspace L (hd (c # cs)) then [32] else []) = [32::nat]"
      using True by simp
    show ?thesis
      by (simp only: c1 c2 c3 c4 split_Cons_space [OF True] append_Cons append_Nil)
  next
    case False
    have ih: "collapse_spaces L cs =
        (if cs \<noteq> [] \<and> isspace L (hd cs) then [32] else [])
          @ join_words (split L cs)
          @ (if split L cs \<noteq> [] \<and> isspace L (last cs) then [32] else [])"
      using 2(2) False by simp
    note step = split_Cons_word_step [OF False, of cs]
    show ?thesis
    proof (cases "cs = []")
      case True
      then show ?thesis using False by (simp add: split_Cons_word split_def)
    next
      case ne: False
      show ?thesis
      proof (cases "isspace L (hd cs)")
        case True
        show ?thesis
        proof (cases "split L cs = []")
          case True
          then have "isspace L (last cs)"
            using ne by (simp add: split_eq_Nil)
          then show ?thesis
            using False ne \<open>isspace L (hd cs)\<close> True ih step(1) by simp
        next
          case nw: False
          then show ?thesis
            using False ne True ih step(1) by (simp add: join_words_Cons)
        qed
      next
        case nsp: False
        then have nw: "split L cs \<noteq> []" using step(2) ne by simp
        then obtain w ws where ws: "split L cs = w # ws" by (cases "split L cs") auto
        then show ?thesis
          using False ne nsp ih step(1) by (simp add: join_words_Cons)
      qed
    qed
  qed
qed

lemma join_words_ends:
  assumes "ws \<noteq> []" and "\<forall>w \<in> set ws. w \<noteq> [] \<and> (\<forall>c \<in> set w. \<not> P c)"
  shows "join_words ws \<noteq> [] \<and> \<not> P (hd (join_words ws)) \<and> \<not> P (last (join_words ws))"
  using assms
proof (induction ws rule: join_words.induct)
  case 1
  then show ?case by simp
next
  case (2 w)
  then show ?case by simp
next
  case (3 w v ws)
  then have "join_words (v # ws) \<noteq> [] \<and> \<not> P (last (join_words (v # ws)))"
    by simp
  moreover have "w \<noteq> [] \<and> \<not> P (hd w)"
    using 3(3) by simp
  ultimately show ?case by simp
qed

lemma strip_core:
  assumes "J \<noteq> []" and "\<not> isspace L (hd J)" and "\<not> isspace L (last J)"
    and "\<forall>c \<in> set a. isspace L c" and "\<forall>c \<in> set b. isspace L c"
  shows "strip L (a @ J @ b) = J"
proof -
  have "dropWhile (isspace L) (a @ J @ b) = dropWhile (isspace L) (J @ b)"
    using assms(4) by (simp add: dropWhile_append2)
  also have "\<dots> = J @ b"
    using assms(1,2) by (cases J) simp_all
  finally have 1: "dropWhile (isspace L) (a @ J @ b) = J @ b" .
  have "dropWhile (isspace L) (rev (J @ b)) = dropWhile (isspace L) (rev J)"
    using assms(5) dropWhile_append2 [of "rev b" "isspace L" "rev J"] by simp
  also have "\<dots> = rev J"
    using assms(1,3) by (cases "rev J") (auto simp: hd_rev)
  finally show ?thesis
    by (simp add: strip_def 1)
qed

lemma strip_collapse:
  assumes "isspace L 32"
  shows "strip L (collapse_spaces L s) = join_words (split L s)"
proof (cases "split L s = []")
  case True
  then have "collapse_spaces L s = (if s \<noteq> [] \<and> isspace L (hd s) then [32] else [])"
    by (simp add: collapse_form [of L s])
  then show ?thesis
    using True assms by (auto simp: strip_def)
next
  case False
  have ok: "\<forall>w \<in> set (split L s). w \<noteq> [] \<and> (\<forall>c \<in> set w. \<not> isspace L c)"
    using split_words by blast
  note ends = join_words_ends [OF False ok]
  have "strip L
          ((if s \<noteq> [] \<and> isspace L (hd s) then [32] else [])
            @ join_words (split L s)
            @ (if split L s \<noteq> [] \<and> isspace L (last s) then [32] else []))
        = join_words (split L s)"
    using ends assms by (intro strip_core) auto
  then show ?thesis
    by (simp only: collapse_form [of L s, symmetric])
qed

lemma normalize_column_name_words:
  assumes "isspace L 32" and "a \<noteq> []" and "b \<noteq> []"
    and "split L (lower L a) = split L (lower L b)"
  shows "normalize_column_name L a = normalize_column_name L b"
  using assms by (simp add: normalize_column_name_def strip_collapse)

lemma find_column_find:
  "find_column_case_insensitive L column_name row_index =
     List.find (\<lambda>col. normalize_column_name L col = normalize_column_name L column_name)
       row_index"
  by (induction row_index) (simp_all add: Let_def)

lemma n_categoria:
  "normalize_text_for_comparison sample_lib (PStr (ascii ''categoria'')) = ascii ''categoria''"
  unfolding normalize_text_for_comparison_def Let_def by (simp add: sample_text)

lemma n_categoria_accent:
  "normalize_text_for_comparison sample_lib (PStr (ascii ''categor'' @ [0xED] @ ascii ''a''))
     = ascii ''categoria''"
  unfolding normalize_text_for_comparison_def Let_def by (simp add: sample_text)

lemma ncn_categoria:
  "normalize_column_name sample_lib (ascii ''categoria'') = ascii ''categoria''"
  unfolding normalize_column_name_def Let_def
  by (simp add: sample_text column_mappings_def)

lemma ncn_categoria_accent:
  "normalize_column_name sample_lib (ascii ''categor'' @ [0xED] @ ascii ''a'')
     = ascii ''categor'' @ [0xED] @ ascii ''a''"
  unfolding normalize_column_name_def Let_def
  by (simp add: sample_text column_mappings_def)

text \<open>
  C7, as stated, fails for accents. \<open>normalize_column_name\<close> lowers the case and
  collapses whitespace; it does not remove accents. The column names \<open>categoria\<close> and
  the same word with U+00ED (i with acute) differ only in the accent, as the text
  normaliser shows, and the row matcher does not find the one for the other.
\<close>

theorem accented_column_not_found_counterexample:
  "normalize_text_for_comparison sample_lib (PStr (ascii ''categor'' @ [0xED] @ ascii ''a''))
     = normalize_text_for_comparison sample_lib (PStr (ascii ''categoria''))
   \<and> find_column_case_insensitive sample_lib (ascii ''categoria'')
       [ascii ''categor'' @ [0xED] @ ascii ''a''] = None"
  using n_categoria n_categoria_accent ncn_categoria ncn_categoria_accent
  by (simp add: Let_def)

text \<open>
  C7, amended. The row matcher finds, for a column of the rule, the first column of the
  row whose \<open>normalize_column_name\<close> equals that of the rule's column. Two non-empty
  names whose lower-case forms have the same words, that is names that differ only in
  case or in leading, trailing or repeated whitespace, have the same normalised name and
  are the same column to the matcher. Names that differ in accents are different
  columns. (The space must be whitespace to the library, as it is in Python.)
\<close>

theorem column_found_by_normalized_name:
  "find_column_case_insensitive L column_name row_index =
     List.find (\<lambda>col. normalize_column_name L col = normalize_column_name L column_name)
       row_index
   \<and> (isspace L 32 \<and> a \<noteq> [] \<and> b \<noteq> [] \<and> split L (lower L a) = split L (lower L b)
        \<longrightarrow> normalize_column_name L a = normalize_column_name L b
            \<and> (b \<in> set row_index \<longrightarrow> find_column_case_insensitive L a row_index \<noteq> None))"
proof (intro conjI impI)
  show "find_column_case_insensitive L column_name row_index =
     List.find (\<lambda>col. normalize_column_name L col = normalize_column_name L column_name)
       row_index"
    by (rule find_column_find)
next
  assume h: "isspace L 32 \<and> a \<noteq> [] \<and> b \<noteq> [] \<and> split L (lower L a) = split L (lower L b)"
  then show eq: "normalize_column_name L a = normalize_column_name L b"
    using normalize_column_name_words by blast
  assume "b \<in> set row_index"
  then show "find_column_case_insensitive L a row_index \<noteq> None"
    using eq by (auto simp: find_column_None_iff)
qed

lemma split_lower_Foro_Name:
  "split sample_lib (lower sample_lib (ascii '' Foro   NAME ''))
     = split sample_lib (lower sample_lib (ascii ''foro name''))"
  by (simp add: split_def sample_lib_sel sample_isspace_def sample_lower_char_def)

text \<open>An instance of the amended C7: case and whitespace differ, the column is found.\<close>

theorem column_found_by_normalized_name_witness:
  "normalize_column_name sample_lib (ascii '' Foro   NAME '')
     = normalize_column_name sample_lib (ascii ''foro name'')
   \<and> find_column_case_insensitive sample_lib (ascii '' Foro   NAME '')
       [ascii ''mensaje'', ascii ''foro name''] \<noteq> None"
  using column_found_by_normalized_name
    [where L = sample_lib and a = "ascii '' Foro   NAME ''" and b = "ascii ''foro name''"
       and row_index = "[ascii ''mensaje'', ascii ''foro name'']"]
    split_lower_Foro_Name
  by (simp add: sample_lib_sel sample_isspace_def)

subsection \<open>The buckets of a compiled rule\<close>

lemma bucket_keys_process_columns:
  "bucket_keys (process_columns L pattern_data processed) k =
     bucket_keys processed k
       \<union> {normalize_column_name L col | col vs.
            (col, vs) \<in> set pattern_data \<and> spec_field_kind L vs = Some k}"
proof (induction pattern_data arbitrary: processed)
  case Nil
  show ?case by simp
next
  case (Cons p pattern_data)
  obtain col vs where p: "p = (col, vs)" by (cases p)
  show ?case
  proof (cases vs)
    case Nil
    then show ?thesis
      using Cons.IH [of processed] by (auto simp: p spec_field_kind_def)
  next
    case vs: (Cons v0 rest)
    define n where "n = normalize_column_name L col"
    define stored where "stored =
       (if is_date_field L (py_str L v0) then
          processed\<lparr>date_fields := AList.update n (process_date_values L vs) (date_fields processed)\<rparr>
        else if is_numeric_field L (py_str L v0) then
          processed\<lparr>numeric_fields :=
            AList.update n (process_numeric_values L vs) (numeric_fields processed)\<rparr>
        else if is_boolean_field vs then
          processed\<lparr>boolean_fields := AList.update n vs (boolean_fields processed)\<rparr>
        else
          processed\<lparr>string_fields :=
            AList.update n (map (clean_pattern_text L) vs) (string_fields processed)\<rparr>)"
    have step: "process_columns L (p # pattern_data) processed
                  = process_columns L pattern_data stored"
      by (simp add: p vs stored_def n_def Let_def)
    have keys: "bucket_keys stored k =
                  bucket_keys processed k \<union> (if spec_field_kind L vs = Some k then {n} else {})"
      by (cases k) (auto simp: stored_def spec_field_kind_def vs dom_update)
    show ?thesis
      unfolding step Cons.IH [of stored] keys
      by (auto simp: p n_def)
  qed
qed

lemma bucket_keys_compiled:
  "bucket_keys (process_columns L pattern_data (empty_pattern pattern_data)) k =
     {normalize_column_name L col | col vs.
        (col, vs) \<in> set pattern_data \<and> spec_field_kind L vs = Some k}"
  unfolding bucket_keys_process_columns
  by (cases k) (simp_all add: empty_pattern_def)

lemma spec_field_kind_nonempty: "spec_field_kind L vs = Some k \<Longrightarrow> vs \<noteq> []"
  by (auto simp: spec_field_kind_def)

lemma spec_field_kind_defined: "vs \<noteq> [] \<Longrightarrow> \<exists>k. spec_field_kind L vs = Some k"
  by (cases vs) (simp_all add: spec_field_kind_def)

lemma same_name_same_column:
  assumes "distinct (map (\<lambda>(col, vs). normalize_column_name L col)
                      (filter (\<lambda>(col, vs). vs \<noteq> []) pattern_data))"
    and "(c1, v1) \<in> set pattern_data" and "v1 \<noteq> []"
    and "(c2, v2) \<in> set pattern_data" and "v2 \<noteq> []"
    and "normalize_column_name L c1 = normalize_column_name L c2"
  shows "v1 = v2"
proof -
  let ?xs = "filter (\<lambda>(col, vs). vs \<noteq> []) pattern_data"
  let ?f = "\<lambda>(col, vs). normalize_column_name L col"
  have "inj_on ?f (set ?xs)"
    using assms(1) by (simp add: distinct_map)
  moreover have "(c1, v1) \<in> set ?xs" "(c2, v2) \<in> set ?xs"
    using assms(2-5) by auto
  moreover have "?f (c1, v1) = ?f (c2, v2)"
    using assms(6) by simp
  ultimately have "(c1, v1) = (c2, v2)"
    by (metis (no_types, lifting) inj_onD)
  then show ?thesis by simp
qed

lemma in_bucket_keys_compiled:
  "n \<in> bucket_keys (process_columns L pattern_data (empty_pattern pattern_data)) k \<longleftrightarrow>
     (\<exists>col vs. (col, vs) \<in> set pattern_data \<and> spec_field_kind L vs = Some k
        \<and> n = normalize_column_name L col)"
  unfolding bucket_keys_compiled by blast

lemma ncn_tweet_space_id:
  "normalize_column_name sample_lib (ascii ''tweet id'') = ascii ''tweet_id''"
  unfolding normalize_column_name_def Let_def
  by (simp add: sample_text column_mappings_def)

lemma ncn_tweet_id:
  "normalize_column_name sample_lib (ascii ''tweet_id'') = ascii ''tweet_id''"
  unfolding normalize_column_name_def Let_def
  by (simp add: sample_text column_mappings_def)

lemma kind_x: "spec_field_kind sample_lib [PStr (ascii ''x'')] = Some StringField"
  by (simp add: spec_field_kind_def is_date_field_def is_numeric_field_def is_boolean_field_def
      is_operator_def)

lemma kind_gt5: "spec_field_kind sample_lib [PStr (ascii ''>5'')] = Some NumericField"
  by (simp add: spec_field_kind_def is_date_field_def is_numeric_field_def is_operator_def
      sample_lib_sel is_ascii_digit_def)

text \<open>
  C6, as stated, fails when two columns of the raw rule share a normalised name. The
  rule \<open>{"tweet id": ["x"], "tweet_id": [">5"]}\<close> has two columns that both
  normalise to \<open>tweet_id\<close> (by the synonym table); the first is a string column, the
  second a numeric one, and the compiled rule holds \<open>tweet_id\<close> in the string bucket
  and in the numeric bucket.
\<close>

theorem shared_name_in_two_buckets_counterexample:
  "ascii ''tweet_id'' \<in> fst ` set (string_fields
      (process_columns sample_lib
         [(ascii ''tweet id'', [PStr (ascii ''x'')]), (ascii ''tweet_id'', [PStr (ascii ''>5'')])]
         (empty_pattern
            [(ascii ''tweet id'', [PStr (ascii ''x'')]), (ascii ''tweet_id'', [PStr (ascii ''>5'')])])))
   \<and> ascii ''tweet_id'' \<in> fst ` set (numeric_fields
      (process_columns sample_lib
         [(ascii ''tweet id'', [PStr (ascii ''x'')]), (ascii ''tweet_id'', [PStr (ascii ''>5'')])]
         (empty_pattern
            [(ascii ''tweet id'', [PStr (ascii ''x'')]), (ascii ''tweet_id'', [PStr (ascii ''>5'')])])))"
proof -
  let ?pd = "[(ascii ''tweet id'', [PStr (ascii ''x'')]), (ascii ''tweet_id'', [PStr (ascii ''>5'')])]"
  let ?C = "process_columns sample_lib ?pd (empty_pattern ?pd)"
  have "(ascii ''tweet id'', [PStr (ascii ''x'')]) \<in> set ?pd"
    and "(ascii ''tweet_id'', [PStr (ascii ''>5'')]) \<in> set ?pd"
    by simp_all
  then have "normalize_column_name sample_lib (ascii ''tweet id'') \<in> bucket_keys ?C StringField"
    and "normalize_column_name sample_lib (ascii ''tweet_id'') \<in> bucket_keys ?C NumericField"
    unfolding bucket_keys_compiled using kind_x kind_gt5 by blast+
  then have "ascii ''tweet_id'' \<in> bucket_keys ?C StringField"
    and "ascii ''tweet_id'' \<in> bucket_keys ?C NumericField"
    unfolding ncn_tweet_space_id ncn_tweet_id by blast+
  then show ?thesis
    unfolding bucket_keys.simps by blast
qed

text \<open>
  C6, amended. When the columns of the raw rule that have values have pairwise different
  normalised names, every such column is held, under its normalised name, in exactly the
  bucket that the shape of its first raw value determines (date pattern, else operator
  and digits, else all genuine booleans, else string); every name that a bucket holds
  comes from such a column; and no name is in two buckets.
\<close>

theorem each_column_in_one_bucket:
  assumes "distinct (map (\<lambda>(col, vs). normalize_column_name L col)
                      (filter (\<lambda>(col, vs). vs \<noteq> []) pattern_data))"
  shows "(\<forall>(col, vs) \<in> set pattern_data. vs \<noteq> [] \<longrightarrow>
            (\<forall>k. normalize_column_name L col
                    \<in> bucket_keys (process_columns L pattern_data (empty_pattern pattern_data)) k
                  \<longleftrightarrow> spec_field_kind L vs = Some k))
         \<and> (\<forall>k. \<forall>n \<in> bucket_keys (process_columns L pattern_data (empty_pattern pattern_data)) k.
               \<exists>(col, vs) \<in> set pattern_data. vs \<noteq> [] \<and> n = normalize_column_name L col)
         \<and> (\<forall>n k k'.
               n \<in> bucket_keys (process_columns L pattern_data (empty_pattern pattern_data)) k
               \<and> n \<in> bucket_keys (process_columns L pattern_data (empty_pattern pattern_data)) k'
               \<longrightarrow> k = k')"
proof -
  let ?C = "process_columns L pattern_data (empty_pattern pattern_data)"
  note same = same_name_same_column [OF assms]
  have one: "normalize_column_name L col \<in> bucket_keys ?C k \<longleftrightarrow> spec_field_kind L vs = Some k"
    if in_pd: "(col, vs) \<in> set pattern_data" and ne: "vs \<noteq> []" for col vs k
  proof
    assume "normalize_column_name L col \<in> bucket_keys ?C k"
    then obtain c2 v2 where c2: "(c2, v2) \<in> set pattern_data" "spec_field_kind L v2 = Some k"
      "normalize_column_name L col = normalize_column_name L c2"
      using in_bucket_keys_compiled [of "normalize_column_name L col" L pattern_data k] by blast
    have "v2 \<noteq> []" using c2(2) by (rule spec_field_kind_nonempty)
    have "vs = v2" using in_pd ne c2(1) \<open>v2 \<noteq> []\<close> c2(3) by (rule same)
    then show "spec_field_kind L vs = Some k" using c2(2) by simp
  next
    assume "spec_field_kind L vs = Some k"
    then show "normalize_column_name L col \<in> bucket_keys ?C k"
      using in_bucket_keys_compiled [of "normalize_column_name L col" L pattern_data k] in_pd
      by blast
  qed
  have two: "\<exists>(col, vs) \<in> set pattern_data. vs \<noteq> [] \<and> n = normalize_column_name L col"
    if nk: "n \<in> bucket_keys ?C k" for n k
  proof -
    from nk obtain col vs where c: "(col, vs) \<in> set pattern_data" "spec_field_kind L vs = Some k"
      "n = normalize_column_name L col"
      using in_bucket_keys_compiled [of n L pattern_data k] by blast
    have "vs \<noteq> []" using c(2) by (rule spec_field_kind_nonempty)
    with c(1,3) show ?thesis by (intro bexI [of _ "(col, vs)"]) simp_all
  qed
  have three: "k = k'" if nk: "n \<in> bucket_keys ?C k" and nk': "n \<in> bucket_keys ?C k'"
    for n k k'
  proof -
    obtain c1 v1 where 1: "(c1, v1) \<in> set pattern_data" "spec_field_kind L v1 = Some k"
      "n = normalize_column_name L c1"
      using nk in_bucket_keys_compiled [of n L pattern_data k] by blast
    obtain c2 v2 where 2: "(c2, v2) \<in> set pattern_data" "spec_field_kind L v2 = Some k'"
      "n = normalize_column_name L c2"
      using nk' in_bucket_keys_compiled [of n L pattern_data k'] by blast
    have ne: "v1 \<noteq> []" "v2 \<noteq> []"
      using 1(2) 2(2) spec_field_kind_nonempty by blast+
    have "normalize_column_name L c1 = normalize_column_name L c2"
      using 1(3) 2(3) by simp
    with 1(1) ne(1) 2(1) ne(2) have "v1 = v2" by (rule same)
    then show ?thesis using 1(2) 2(2) by simp
  qed
  show ?thesis
  proof (intro conjI)
    show "\<forall>(col, vs) \<in> set pattern_data. vs \<noteq> [] \<longrightarrow>
            (\<forall>k. normalize_column_name L col \<in> bucket_keys ?C k
                  \<longleftrightarrow> spec_field_kind L vs = Some k)"
      using one by blast
    show "\<forall>k. \<forall>n \<in> bucket_keys ?C k.
               \<exists>(col, vs) \<in> set pattern_data. vs \<noteq> [] \<and> n = normalize_column_name L col"
      using two by blast
    show "\<forall>n k k'. n \<in> bucket_keys ?C k \<and> n \<in> bucket_keys ?C k' \<longrightarrow> k = k'"
      using three by blast
  qed
qed

lemma kind_gt1000: "spec_field_kind sample_lib [PStr (ascii ''>1000'')] = Some NumericField"
  by (simp add: spec_field_kind_def is_date_field_def is_numeric_field_def is_operator_def
      is_hyphen_def sample_lib_sel is_ascii_digit_def)

text \<open>
  An instance of the amended C6: of three columns, one has no values; \<open>seguidores\<close> with
  the value \<open>>1000\<close> is in the numeric bucket and not in the string bucket.
\<close>

theorem each_column_in_one_bucket_witness:
  "distinct (map (\<lambda>(col, vs). normalize_column_name sample_lib col)
      (filter (\<lambda>(col, vs). vs \<noteq> [])
         [(ascii ''foro'', [PStr (ascii ''cnn'')]),
          (ascii ''seguidores'', [PStr (ascii ''>1000'')]), (ascii ''vacio'', [])]))
   \<and> normalize_column_name sample_lib (ascii ''seguidores'')
       \<in> bucket_keys
           (process_columns sample_lib
              [(ascii ''foro'', [PStr (ascii ''cnn'')]),
               (ascii ''seguidores'', [PStr (ascii ''>1000'')]), (ascii ''vacio'', [])]
              (empty_pattern
                 [(ascii ''foro'', [PStr (ascii ''cnn'')]),
                  (ascii ''seguidores'', [PStr (ascii ''>1000'')]), (ascii ''vacio'', [])]))
           NumericField
   \<and> normalize_column_name sample_lib (ascii ''seguidores'')
       \<notin> bucket_keys
           (process_columns sample_lib
              [(ascii ''foro'', [PStr (ascii ''cnn'')]),
               (ascii ''seguidores'', [PStr (ascii ''>1000'')]), (ascii ''vacio'', [])]
              (empty_pattern
                 [(ascii ''foro'', [PStr (ascii ''cnn'')]),
                  (ascii ''seguidores'', [PStr (ascii ''>1000'')]), (ascii ''vacio'', [])]))
           StringField"
proof -
  let ?pd = "[(ascii ''foro'', [PStr (ascii ''cnn'')]),
              (ascii ''seguidores'', [PStr (ascii ''>1000'')]), (ascii ''vacio'', [])]"
  let ?C = "process_columns sample_lib ?pd (empty_pattern ?pd)"
  have d: "distinct (map (\<lambda>(col, vs). normalize_column_name sample_lib col)
             (filter (\<lambda>(col, vs). vs \<noteq> []) ?pd))"
    using ncn_foro ncn_seguidores by simp
  have mem: "(ascii ''seguidores'', [PStr (ascii ''>1000'')]) \<in> set ?pd"
    by simp
  have "\<forall>(col, vs) \<in> set ?pd. vs \<noteq> [] \<longrightarrow>
          (\<forall>k. normalize_column_name sample_lib col \<in> bucket_keys ?C k
                \<longleftrightarrow> spec_field_kind sample_lib vs = Some k)"
    using each_column_in_one_bucket [OF d] by (rule conjunct1)
  from bspec [OF this mem]
  have k: "\<And>k. normalize_column_name sample_lib (ascii ''seguidores'') \<in> bucket_keys ?C k
             \<longleftrightarrow> spec_field_kind sample_lib [PStr (ascii ''>1000'')] = Some k"
    by (simp only: prod.case) blast
  have "normalize_column_name sample_lib (ascii ''seguidores'') \<in> bucket_keys ?C NumericField"
    unfolding k by (rule kind_gt1000)
  moreover
  have "normalize_column_name sample_lib (ascii ''seguidores'') \<notin> bucket_keys ?C StringField"
    unfolding k kind_gt1000 by simp
  ultimately show ?thesis using d by blast
qed

subsection \<open>Applying the rules\<close>

lemma check_row_cong:
  "processed_patterns s1 = processed_patterns s2 \<Longrightarrow>
     check_row_matches_pattern L s1 row n = check_row_matches_pattern L s2 row n"
  by (simp add: check_row_matches_pattern_def)

lemma find_matching_rows_cong:
  "processed_patterns s1 = processed_patterns s2 \<Longrightarrow>
     find_matching_rows L s1 n df = find_matching_rows L s2 n df"
  by (induction df) (auto simp: check_row_cong [of s1 s2] split: sum.splits)

lemma set_find_matching_rows:
  "set (find_matching_rows L s n df) =
     {row \<in> set df. check_row_matches_pattern L s row n = Inr True}"
  by (induction df) (auto split: sum.splits)

lemma find_matching_rows_nonempty:
  "find_matching_rows L s n df \<noteq> [] \<longleftrightarrow>
     (\<exists>row \<in> set df. check_row_matches_pattern L s row n = Inr True)"
proof -
  have "find_matching_rows L s n df \<noteq> [] \<longleftrightarrow> set (find_matching_rows L s n df) \<noteq> {}"
    by simp
  then show ?thesis
    unfolding set_find_matching_rows by blast
qed

lemma apply_to_language_processed:
  "processed_patterns (apply_to_language L language df names self) = processed_patterns self"
  by (induction names arbitrary: self) (simp_all add: Let_def)

lemma apply_to_language_results:
  "map_of (results (apply_to_language L language df names self)) n =
     map_option
       (\<lambda>inner. if n \<in> set names \<and> find_matching_rows L self n df \<noteq> []
                then AList.update language (find_matching_rows L self n df) inner else inner)
       (map_of (results self) n)"
proof (induction names arbitrary: self)
  case Nil
  show ?case by (simp add: option.map_ident)
next
  case (Cons a names)
  let ?M = "find_matching_rows L self a df"
  let ?self1 = "if ?M \<noteq> [] then
      self\<lparr>results := AList.map_entry a (AList.update language ?M) (results self)\<rparr> else self"
  have step: "apply_to_language L language df (a # names) self
                = apply_to_language L language df names ?self1"
    by (simp add: Let_def)
  have pp: "processed_patterns ?self1 = processed_patterns self"
    by simp
  have fm: "find_matching_rows L ?self1 n df = find_matching_rows L self n df"
    using pp by (rule find_matching_rows_cong)
  have r1: "map_of (results ?self1) n =
      (if ?M \<noteq> [] \<and> n = a then map_option (AList.update language ?M) (map_of (results self) a)
       else map_of (results self) n)"
    by (auto simp: map_of_map_entry split: option.splits)
  show ?case
    unfolding step Cons.IH [of ?self1] fm r1
    by (cases "map_of (results self) n") auto
qed

lemma in_set_update:
  "(k, v) \<in> set (AList.update k' v' al) \<Longrightarrow> (k, v) = (k', v') \<or> (k, v) \<in> set al"
  by (induction al) (auto split: if_splits)

lemma apply_to_data_processed:
  "processed_patterns (apply_to_data L data names self) = processed_patterns self"
  by (induction data arbitrary: self) (auto simp: apply_to_language_processed)

lemma apply_to_data_results:
  assumes "map_of (results self) n = Some inner"
  shows "\<exists>inner'. map_of (results (apply_to_data L data names self)) n = Some inner'
           \<and> fst ` set inner' =
               fst ` set inner
                 \<union> {language. \<exists>df. (language, df) \<in> set data \<and> n \<in> set names
                        \<and> find_matching_rows L self n df \<noteq> []}
           \<and> (\<forall>l rs. (l, rs) \<in> set inner' \<longrightarrow> (l, rs) \<in> set inner \<or> rs \<noteq> [])"
  using assms
proof (induction data arbitrary: self inner)
  case Nil
  then show ?case by simp
next
  case (Cons p data)
  obtain language df where p: "p = (language, df)" by (cases p)
  let ?self1 = "apply_to_language L language df names self"
  let ?M = "find_matching_rows L self n df"
  let ?inner1 = "if n \<in> set names \<and> ?M \<noteq> [] then AList.update language ?M inner else inner"
  have r1: "map_of (results ?self1) n = Some ?inner1"
    using Cons.prems by (simp add: apply_to_language_results)
  have fm: "find_matching_rows L ?self1 n d = find_matching_rows L self n d" for d
    by (rule find_matching_rows_cong) (rule apply_to_language_processed)
  from Cons.IH [OF r1] obtain inner' where
    i1: "map_of (results (apply_to_data L data names ?self1)) n = Some inner'"
    and i2: "fst ` set inner' =
               fst ` set ?inner1
                 \<union> {language. \<exists>df. (language, df) \<in> set data \<and> n \<in> set names
                        \<and> find_matching_rows L ?self1 n df \<noteq> []}"
    and i3: "\<forall>l rs. (l, rs) \<in> set inner' \<longrightarrow> (l, rs) \<in> set ?inner1 \<or> rs \<noteq> []"
    by blast
  have k1: "fst ` set ?inner1 =
      fst ` set inner \<union> (if n \<in> set names \<and> ?M \<noteq> [] then {language} else {})"
    by (simp add: dom_update)
  have "map_of (results (apply_to_data L (p # data) names self)) n = Some inner'"
    using i1 by (simp add: p)
  moreover have "fst ` set inner' =
               fst ` set inner
                 \<union> {language. \<exists>df. (language, df) \<in> set (p # data) \<and> n \<in> set names
                        \<and> find_matching_rows L self n df \<noteq> []}"
    unfolding i2 k1 fm p by auto
  moreover have "\<forall>l rs. (l, rs) \<in> set inner' \<longrightarrow> (l, rs) \<in> set inner \<or> rs \<noteq> []"
  proof (intro allI impI)
    fix l rs
    assume "(l, rs) \<in> set inner'"
    then have "(l, rs) \<in> set ?inner1 \<or> rs \<noteq> []" using i3 by blast
    then show "(l, rs) \<in> set inner \<or> rs \<noteq> []"
      by (auto dest: in_set_update split: if_splits)
  qed
  ultimately show ?case by blast
qed

lemma map_of_init_results:
  "map_of (init_results names res) n = (if n \<in> set names then Some [] else map_of res n)"
  by (induction names arbitrary: res) (auto simp: update_conv')

text \<open>
  C8. In the result of \<open>apply_patterns\<close> every rule of the rule set has an inner mapping,
  and a language is a key of it exactly when some row of that language matched the rule
  (as compiled in this run); no key is ever stored with an empty collection of rows. So
  a pair of a rule and a language without a matching row is absent.
\<close>

theorem zero_match_pair_absent:
  assumes "pattern_name \<in> fst ` set patterns"
  shows "\<exists>inner. map_of (snd (apply_patterns L self data patterns)) pattern_name = Some inner
           \<and> (\<forall>language.
                 language \<in> fst ` set inner \<longleftrightarrow>
                   (\<exists>df. (language, df) \<in> set data
                      \<and> (\<exists>row \<in> set df.
                            check_row_matches_pattern L (process_patterns L self patterns) row
                              pattern_name = Inr True)))
           \<and> (\<forall>language rs. (language, rs) \<in> set inner \<longrightarrow> rs \<noteq> [])"
proof -
  let ?names = "map fst patterns"
  let ?s0 = "process_patterns L self patterns"
  let ?s2 = "?s0\<lparr>results := init_results ?names [],
                 column_mapping := track_columns L patterns (column_mapping ?s0)\<rparr>"
  have out: "snd (apply_patterns L self data patterns)
               = results (apply_to_data L data ?names ?s2)"
    by (simp add: apply_patterns_def Let_def)
  have start: "map_of (results ?s2) pattern_name = Some []"
    using assms by (simp add: map_of_init_results)
  have pp: "processed_patterns ?s2 = processed_patterns ?s0"
    by simp
  have fm: "find_matching_rows L ?s2 pattern_name df \<noteq> [] \<longleftrightarrow>
      (\<exists>row \<in> set df. check_row_matches_pattern L ?s0 row pattern_name = Inr True)" for df
    unfolding find_matching_rows_cong [OF pp] by (rule find_matching_rows_nonempty)
  from apply_to_data_results [OF start, of L data ?names]
  obtain inner where
    1: "map_of (results (apply_to_data L data ?names ?s2)) pattern_name = Some inner"
    and 2: "fst ` set inner =
              {language. \<exists>df. (language, df) \<in> set data \<and> pattern_name \<in> set ?names
                 \<and> find_matching_rows L ?s2 pattern_name df \<noteq> []}"
    and 3: "\<forall>l rs. (l, rs) \<in> set inner \<longrightarrow> rs \<noteq> []"
    by auto
  have "\<forall>language.
          language \<in> fst ` set inner \<longleftrightarrow>
            (\<exists>df. (language, df) \<in> set data
               \<and> (\<exists>row \<in> set df.
                     check_row_matches_pattern L ?s0 row pattern_name = Inr True))"
    unfolding 2 fm using assms by auto
  with 1 3 show ?thesis
    unfolding out by blast
qed

lemma n_tea: "normalize_text_for_comparison sample_lib (PStr (ascii ''tea'')) = ascii ''tea''"
  unfolding normalize_text_for_comparison_def Let_def by (simp add: sample_text)

lemma similarity_cafe_tea: "calculate_similarity sample_lib (ascii ''cafe'') (ascii ''tea'') = 0"
  unfolding calculate_similarity_words
  by (simp add: split_def sample_lib_sel sample_isspace_def)

lemma foro_tea_no_match:
  "check_row_matches_pattern sample_lib
     \<lparr>processed_patterns =
        [(ascii ''r'',
          \<lparr>string_fields = [(ascii ''foro'', [ascii ''cafe''])], numeric_fields = [],
           date_fields = [], boolean_fields = [],
           original_pattern = [(ascii ''foro'', [PStr (ascii ''cafe'')])]\<rparr>)],
      results = [], column_mapping = []\<rparr>
     [(ascii ''foro'', PStr (ascii ''tea''))] (ascii ''r'') = Inr False"
proof -
  have "\<not> check_string_condition sample_lib (PStr (ascii ''tea'')) [ascii ''cafe'']"
    using n_tea n_cafe similarity_cafe_tea
    by (simp add: check_string_condition_def Let_def sublist_code prefix_code)
  then show ?thesis
    by (simp add: check_row_matches_pattern_def row_cells_def Let_def)
qed

text \<open>
  An instance of C8: the rule \<open>{"foro": ["cafe"]}\<close>, one row under \<open>es\<close> that matches
  and one row under \<open>en\<close> that does not; \<open>es\<close> is a key of the result and \<open>en\<close> is
  not.
\<close>

theorem zero_match_pair_absent_witness:
  "\<exists>inner.
     map_of (snd (apply_patterns sample_lib
                    \<lparr>processed_patterns = [], results = [], column_mapping = []\<rparr>
                    [(ascii ''es'', [[(ascii ''foro'', PStr (ascii ''mi cafe favorito''))]]),
                     (ascii ''en'', [[(ascii ''foro'', PStr (ascii ''tea''))]])]
                    [(ascii ''r'', [(ascii ''foro'', [PStr (ascii ''cafe'')])])]))
       (ascii ''r'') = Some inner
     \<and> ascii ''es'' \<in> fst ` set inner \<and> ascii ''en'' \<notin> fst ` set inner"
proof -
  let ?self = "\<lparr>processed_patterns = [], results = [], column_mapping = []\<rparr>"
  let ?patterns = "[(ascii ''r'', [(ascii ''foro'', [PStr (ascii ''cafe'')])])]"
  let ?es = "[(ascii ''foro'', PStr (ascii ''mi cafe favorito''))]"
  let ?en = "[(ascii ''foro'', PStr (ascii ''tea''))]"
  let ?data = "[(ascii ''es'', [?es]), (ascii ''en'', [?en])]"
  have name: "ascii ''r'' \<in> fst ` set ?patterns" by simp
  from zero_match_pair_absent [OF name, of sample_lib ?self ?data]
  obtain inner where
    1: "map_of (snd (apply_patterns sample_lib ?self ?data ?patterns)) (ascii ''r'') = Some inner"
    and 2: "\<And>language. language \<in> fst ` set inner \<longleftrightarrow>
              (\<exists>df. (language, df) \<in> set ?data
                 \<and> (\<exists>row \<in> set df.
                       check_row_matches_pattern sample_lib
                         (process_patterns sample_lib ?self ?patterns) row (ascii ''r'')
                         = Inr True))"
    by blast
  have yes: "check_row_matches_pattern sample_lib
               (process_patterns sample_lib ?self ?patterns) ?es (ascii ''r'') = Inr True"
    unfolding compile_foro_cafe using n_mi_cafe_favorito by (intro foro_cafe_matches) simp_all
  have no: "check_row_matches_pattern sample_lib
               (process_patterns sample_lib ?self ?patterns) ?en (ascii ''r'') = Inr False"
    unfolding compile_foro_cafe by (rule foro_tea_no_match)
  have "ascii ''es'' \<in> fst ` set inner"
    unfolding 2
  proof (intro exI conjI bexI)
    show "(ascii ''es'', [?es]) \<in> set ?data" by simp
    show "?es \<in> set [?es]" by simp
    show "check_row_matches_pattern sample_lib
            (process_patterns sample_lib ?self ?patterns) ?es (ascii ''r'') = Inr True"
      by (rule yes)
  qed
  moreover have "ascii ''en'' \<notin> fst ` set inner"
    unfolding 2
  proof
    assume "\<exists>df. (ascii ''en'', df) \<in> set ?data
                 \<and> (\<exists>row \<in> set df.
                       check_row_matches_pattern sample_lib
                         (process_patterns sample_lib ?self ?patterns) row (ascii ''r'')
                         = Inr True)"
    then obtain df row where d: "(ascii ''en'', df) \<in> set ?data" "row \<in> set df"
      and t: "check_row_matches_pattern sample_lib
                (process_patterns sample_lib ?self ?patterns) row (ascii ''r'') = Inr True"
      by blast
    from d have "row = ?en" by auto
    with t no show False by simp
  qed
  ultimately show ?thesis using 1 by blast
qed

subsection \<open>Deduplication in the merger\<close>

lemma set_union_columns: "set (union_columns seen cs) = set seen \<union> set cs"
  by (induction cs arbitrary: seen) auto

lemma keep_first_kept:
  "x \<in> set (keep_first key seen xs) \<Longrightarrow> key x \<notin> set seen \<and> x \<in> set xs"
proof (induction xs arbitrary: seen)
  case Nil
  then show ?case by simp
next
  case (Cons a xs)
  show ?case
  proof (cases "key a \<in> set seen")
    case True
    with Cons.prems have "x \<in> set (keep_first key seen xs)" by simp
    then show ?thesis using Cons.IH by simp
  next
    case False
    with Cons.prems have "x = a \<or> x \<in> set (keep_first key (key a # seen) xs)" by simp
    then show ?thesis
    proof
      assume "x = a"
      then show ?thesis using False by simp
    next
      assume "x \<in> set (keep_first key (key a # seen) xs)"
      then have "key x \<notin> set (key a # seen) \<and> x \<in> set xs" by (rule Cons.IH)
      then show ?thesis by simp
    qed
  qed
qed

lemma keep_first_subseq: "subseq (keep_first key seen xs) xs"
  by (induction xs arbitrary: seen) auto

lemma keep_first_append:
  "keep_first key seen (xs @ ys) =
     keep_first key seen xs
       @ keep_first key (rev (map key (keep_first key seen xs)) @ seen) ys"
  by (induction xs arbitrary: seen) auto

lemma keep_first_first_occurrence:
  assumes "key r \<notin> set seen" and "\<forall>x \<in> set pre. key x \<noteq> key r"
  shows "keep_first key seen (pre @ r # post) =
           keep_first key seen pre
             @ r # keep_first key (key r # rev (map key (keep_first key seen pre)) @ seen) post"
proof -
  have "key r \<notin> set (rev (map key (keep_first key seen pre)) @ seen)"
    using assms keep_first_kept [of _ key seen pre] by auto
  then show ?thesis
    by (simp add: keep_first_append)
qed

lemma row_key_eq_iff:
  "row_key cols x = row_key cols y \<longleftrightarrow> (\<forall>col \<in> set cols. x col = y col)"
  by (simp add: row_key_def)

text \<open>
  C9. Two frames are combined and deduplicated. The first holds a row \<open>r\<close>, the second
  a row \<open>r'\<close> that equals \<open>r\<close> in every column but the provenance columns, and no row
  before \<open>r\<close> equals it so. Then the result holds \<open>r\<close> itself, the rows kept before it
  are among the rows that stood before it and the rows kept after it among those that
  stood after it, in their order; no other row of the result equals \<open>r\<close> outside the
  provenance columns, and \<open>r'\<close> is not kept. The frames have a column that is not
  provenance (with none, \<open>drop_duplicates\<close> receives an empty subset and raises, and
  the frame stays as it was).
\<close>

theorem shared_row_kept_once:
  assumes frames: "data_frames self = [(name1, df1), (name2, df2)]"
    and first_frame: "rows df1 = pre @ r # mid"
    and second_frame: "r' \<in> set (rows df2)"
    and same: "\<forall>col \<in> set (columns df1) \<union> set (columns df2).
                 col \<notin> set metadata_cols \<longrightarrow> r col = r' col"
    and earliest: "\<forall>x \<in> set pre. \<exists>col \<in> set (columns df1) \<union> set (columns df2).
                     col \<notin> set metadata_cols \<and> x col \<noteq> r col"
    and data_column: "\<exists>col \<in> set (columns df1) \<union> set (columns df2). col \<notin> set metadata_cols"
  shows "\<exists>self2 df kept_pre kept_post.
           remove_duplicates (fst (combine_data self)) None = (self2, True)
           \<and> combined_data self2 = Some df
           \<and> rows df = kept_pre @ r # kept_post
           \<and> subseq kept_pre pre \<and> subseq kept_post (mid @ rows df2)
           \<and> (\<forall>x \<in> set kept_pre \<union> set kept_post.
                 \<exists>col \<in> set (columns df1) \<union> set (columns df2).
                   col \<notin> set metadata_cols \<and> x col \<noteq> r col)
           \<and> r' \<notin> set kept_post"
proof -
  let ?combined = "concat_frames (map snd (data_frames self))"
  let ?cols = "filter (\<lambda>col. col \<notin> set metadata_cols) (columns ?combined)"
  let ?key = "row_key ?cols"
  let ?self1 = "fst (combine_data self)"
  have cols: "set (columns ?combined) = set (columns df1) \<union> set (columns df2)"
    by (simp add: frames concat_frames_def set_union_columns)
  have rows: "rows ?combined = pre @ r # (mid @ rows df2)"
    by (simp add: frames concat_frames_def first_frame)
  have c1: "combined_data ?self1 = Some ?combined"
    by (simp add: combine_data_def frames)
  let ?kept_pre = "keep_first ?key [] pre"
  let ?kept_post = "keep_first ?key (?key r # rev (map ?key ?kept_pre) @ []) (mid @ rows df2)"
  have differs: "?key x \<noteq> ?key r \<longleftrightarrow>
      (\<exists>col \<in> set (columns df1) \<union> set (columns df2). col \<notin> set metadata_cols \<and> x col \<noteq> r col)"
    for x
    unfolding row_key_eq_iff using cols by auto
  have early: "\<forall>x \<in> set pre. ?key x \<noteq> ?key r"
    using earliest differs by blast
  have kept: "keep_first ?key [] (rows ?combined) = ?kept_pre @ r # ?kept_post"
    unfolding rows by (rule keep_first_first_occurrence) (use early in simp_all)
  define df where "df = ?combined\<lparr>rows := keep_first ?key [] (rows ?combined)\<rparr>"
  define self2 where "self2 = ?self1\<lparr>combined_data := Some df,
      duplicate_stats := Some (length (rows ?combined), length (rows df),
        length (rows ?combined) - length (rows df))\<rparr>"
  have "?cols \<noteq> []"
    using data_column cols by (auto simp: filter_empty_conv)
  moreover have "rows ?combined \<noteq> []" "columns ?combined \<noteq> []"
    using rows data_column cols by auto
  ultimately have dd: "drop_duplicates ?cols ?combined = Inr df"
    by (simp add: drop_duplicates_def df_def)
  have rd: "remove_duplicates ?self1 None = (self2, True)"
    by (simp add: remove_duplicates_def c1 dd Let_def self2_def)
  have rdf: "rows df = ?kept_pre @ r # ?kept_post"
    using kept by (simp add: df_def)
  have pre_ok: "\<forall>x \<in> set ?kept_pre. ?key x \<noteq> ?key r"
    using early keep_first_kept [of _ ?key "[]" pre] by blast
  have post_ok: "\<forall>x \<in> set ?kept_post. ?key x \<noteq> ?key r"
    using keep_first_kept [of _ ?key _ "mid @ rows df2"] by fastforce
  have "?key r' = ?key r"
    unfolding row_key_eq_iff using same cols by auto
  then have r'_out: "r' \<notin> set ?kept_post"
    using post_ok by blast
  have "remove_duplicates ?self1 None = (self2, True)
           \<and> combined_data self2 = Some df
           \<and> rows df = ?kept_pre @ r # ?kept_post
           \<and> subseq ?kept_pre pre \<and> subseq ?kept_post (mid @ rows df2)
           \<and> (\<forall>x \<in> set ?kept_pre \<union> set ?kept_post.
                 \<exists>col \<in> set (columns df1) \<union> set (columns df2).
                   col \<notin> set metadata_cols \<and> x col \<noteq> r col)
           \<and> r' \<notin> set ?kept_post"
    using rd rdf pre_ok post_ok r'_out differs
    by (simp add: self2_def keep_first_subseq) blast
  then show ?thesis by blast
qed

text \<open>
  An instance of C9: the files \<open>a.xlsx\<close> and \<open>b.xlsx\<close> share the row with the text
  \<open>adios\<close>; the copy of \<open>a.xlsx\<close> is kept and that of \<open>b.xlsx\<close> is not.
\<close>

theorem shared_row_kept_once_witness:
  "\<exists>self2 df kept_pre kept_post.
     remove_duplicates
       (fst (combine_data
          \<lparr>data_frames =
             [(ascii ''a.xlsx'',
               \<lparr>columns = [ascii ''texto'', ascii ''_source_file''],
                rows = [map_of [(ascii ''texto'', ascii ''hola''),
                                (ascii ''_source_file'', ascii ''a.xlsx'')],
                        map_of [(ascii ''texto'', ascii ''adios''),
                                (ascii ''_source_file'', ascii ''a.xlsx'')]]\<rparr>),
              (ascii ''b.xlsx'',
               \<lparr>columns = [ascii ''texto'', ascii ''_source_file''],
                rows = [map_of [(ascii ''texto'', ascii ''adios''),
                                (ascii ''_source_file'', ascii ''b.xlsx'')]]\<rparr>)],
           combined_data = None, duplicate_stats = None\<rparr>)) None = (self2, True)
     \<and> combined_data self2 = Some df
     \<and> rows df = kept_pre @ map_of [(ascii ''texto'', ascii ''adios''),
                                      (ascii ''_source_file'', ascii ''a.xlsx'')] # kept_post
     \<and> subseq kept_pre [map_of [(ascii ''texto'', ascii ''hola''),
                                 (ascii ''_source_file'', ascii ''a.xlsx'')]]
     \<and> map_of [(ascii ''texto'', ascii ''adios''), (ascii ''_source_file'', ascii ''b.xlsx'')]
         \<notin> set kept_post"
proof -
  let ?r1 = "map_of [(ascii ''texto'', ascii ''hola''), (ascii ''_source_file'', ascii ''a.xlsx'')]"
  let ?r2 = "map_of [(ascii ''texto'', ascii ''adios''), (ascii ''_source_file'', ascii ''a.xlsx'')]"
  let ?r3 = "map_of [(ascii ''texto'', ascii ''adios''), (ascii ''_source_file'', ascii ''b.xlsx'')]"
  let ?df1 = "\<lparr>columns = [ascii ''texto'', ascii ''_source_file''], rows = [?r1, ?r2]\<rparr>"
  let ?df2 = "\<lparr>columns = [ascii ''texto'', ascii ''_source_file''], rows = [?r3]\<rparr>"
  let ?self = "\<lparr>data_frames = [(ascii ''a.xlsx'', ?df1), (ascii ''b.xlsx'', ?df2)],
                combined_data = None, duplicate_stats = None\<rparr>"
  have frames: "data_frames ?self = [(ascii ''a.xlsx'', ?df1), (ascii ''b.xlsx'', ?df2)]"
    by simp
  have first_frame: "rows ?df1 = [?r1] @ ?r2 # []" by simp
  have second_frame: "?r3 \<in> set (rows ?df2)" by simp
  have same: "\<forall>col \<in> set (columns ?df1) \<union> set (columns ?df2).
                col \<notin> set metadata_cols \<longrightarrow> ?r2 col = ?r3 col"
    by (simp add: metadata_cols_def)
  have earliest: "\<forall>x \<in> set [?r1]. \<exists>col \<in> set (columns ?df1) \<union> set (columns ?df2).
                    col \<notin> set metadata_cols \<and> x col \<noteq> ?r2 col"
    by (simp add: metadata_cols_def)
  have data_column: "\<exists>col \<in> set (columns ?df1) \<union> set (columns ?df2). col \<notin> set metadata_cols"
    by (simp add: metadata_cols_def)
  from shared_row_kept_once
    [OF frames first_frame second_frame same earliest data_column]
  show ?thesis by blast
qed

text \<open>
  C10. A pattern value whose normalised form is empty makes the string evaluator accept
  every cell that is not missing, since the empty text is part of every text. A raw rule
  value made of the stripped symbols only, such as \<open>!\<close> or \<open>--\<close>, is compiled into
  such a pattern value.
\<close>

theorem empty_pattern_value_accepts_every_cell:
  "(pattern_value \<in> set pattern_values
      \<and> normalize_text_for_comparison L (PStr pattern_value) = [] \<and> \<not> isna row_value
    \<longrightarrow> check_string_condition L row_value pattern_values)
   \<and> (PStr s \<in> set vs \<and> set s \<subseteq> set symbols \<and> \<not> isna row_value
    \<longrightarrow> check_string_condition L row_value (map (clean_pattern_text L) vs))"
proof (intro conjI impI)
  assume "pattern_value \<in> set pattern_values
      \<and> normalize_text_for_comparison L (PStr pattern_value) = [] \<and> \<not> isna row_value"
  then show "check_string_condition L row_value pattern_values"
    using any_pattern_matches_empty by (auto simp: check_string_condition_def)
next
  assume a: "PStr s \<in> set vs \<and> set s \<subseteq> set symbols \<and> \<not> isna row_value"
  then have "clean_pattern_text L (PStr s) = []"
    by (simp add: clean_only_symbols)
  moreover from a have "clean_pattern_text L (PStr s) \<in> set (map (clean_pattern_text L) vs)"
    by auto
  moreover have "normalize_text_for_comparison L (PStr []) = []"
    by (simp add: normalize_text_for_comparison_def)
  ultimately have "any_pattern_matches L (normalize_text_for_comparison L row_value)
                     (map (clean_pattern_text L) vs)"
    using any_pattern_matches_empty by metis
  with a show "check_string_condition L row_value (map (clean_pattern_text L) vs)"
    by (simp add: check_string_condition_def)
qed

text \<open>An instance of C10, with the pattern value \<open>--\<close> next to an ordinary one.\<close>

theorem empty_pattern_value_accepts_every_cell_witness:
  "check_string_condition sample_lib (PStr (ascii ''hola'')) [[]]
   \<and> check_string_condition sample_lib (PInt 7)
       (map (clean_pattern_text sample_lib) [PStr (ascii ''cnn''), PStr (ascii ''--'')])"
  using empty_pattern_value_accepts_every_cell
      [of "[]" "[[]]" sample_lib "PStr (ascii ''hola'')" "ascii ''--''"
          "[PStr (ascii ''cnn''), PStr (ascii ''--'')]"]
    empty_pattern_value_accepts_every_cell
      [of "[]" "[[]]" sample_lib "PInt 7" "ascii ''--''"
          "[PStr (ascii ''cnn''), PStr (ascii ''--'')]"]
  by (simp add: normalize_text_for_comparison_def symbols_def)

end
